theory Spec2Isabelle
  imports Main "HOL-Library.Word"
begin

unbundle bit_operations_syntax

section \<open>Data model of \<^verbatim>\<open>src/tbb/task.cpp\<close>\<close>

text \<open>
  The file implements the waiting protocol of \<^verbatim>\<open>d1::wait_context\<close> and the
  suspend/resume protocol of \<^verbatim>\<open>r1::task_dispatcher\<close> (the build with
  \<^verbatim>\<open>__TBB_RESUMABLE_TASKS\<close>). Objects live in a store indexed by address;
  address \<open>0\<close> is \<^verbatim>\<open>nullptr\<close>. Assertions (\<^verbatim>\<open>__TBB_ASSERT\<close>) are checked: a
  failed one ends the call with an error value.
\<close>

type_synonym ptr = nat

abbreviation (input) nullptr :: ptr where
  "nullptr \<equiv> 0"

datatype error = Assertion_failed string

datatype memory_order = Relaxed | Acquire | Release | Seq_cst

record wait_context =
  m_version_and_traits :: "64 word"
  m_ref_count :: "64 word"
  m_wait_head :: ptr

record wait_node =
  my_next :: ptr
  my_suspend_point :: ptr

datatype post_resume_action = register_waiter | callback | cleanup | notify | none

record thread_data =
  my_task_dispatcher :: ptr
  my_arena :: ptr
  my_arena_slot :: ptr
  my_post_resume_action :: post_resume_action
  my_post_resume_arg :: ptr

record register_waiter_data =
  wo :: ptr
  node :: ptr

record suspend_callback_wrapper =
  suspend_callback :: ptr
  user_callback :: ptr
  tag :: ptr

record task_dispatcher =
  m_thread_data :: ptr
  m_suspend_point :: ptr
  critical_task_allowed :: bool
  outermost :: bool

record resume_task =
  m_target :: ptr

text \<open>
  The member \<^verbatim>\<open>m_is_owner_recalled\<close> is a \<^verbatim>\<open>std::atomic<bool>\<close> that the
  \<^verbatim>\<open>notify\<close> action reaches through a plain pointer, so the record holds the
  address of that cell in the store of atomic booleans.
\<close>

record suspend_point_type =
  m_arena :: ptr
  m_random :: nat
  m_is_owner_recalled :: ptr
  m_resume_task :: resume_task

record arena_slot =
  my_default_task_dispatcher :: ptr

text \<open>
  A task stream is the sequence of pushes it received, each with its lane; the coroutine
  cache is a stack of dispatcher addresses.
\<close>

record arena =
  my_references :: int
  my_resume_task_stream :: "(nat \<times> ptr) list"
  my_critical_task_stream :: "(nat \<times> ptr) list"
  my_co_cache :: "ptr list"
  my_market_worker_stack_size :: nat

record world =
  wait_contexts :: "ptr \<Rightarrow> wait_context"
  wait_nodes :: "ptr \<Rightarrow> wait_node"
  thread_datas :: "ptr \<Rightarrow> thread_data"
  register_waiter_datas :: "ptr \<Rightarrow> register_waiter_data"
  callback_wrappers :: "ptr \<Rightarrow> suspend_callback_wrapper"
  task_dispatchers :: "ptr \<Rightarrow> task_dispatcher"
  suspend_points :: "ptr \<Rightarrow> suspend_point_type"
  arena_slots :: "ptr \<Rightarrow> arena_slot"
  arenas :: "ptr \<Rightarrow> arena"
  atomic_bools :: "ptr \<Rightarrow> bool"
  next_address :: ptr

text \<open>
  What the calling thread does is recorded in a trace, in program order: lock
  acquisitions and releases, writes of \<^verbatim>\<open>m_wait_head\<close>, notifications, calls of the
  collaborators (task streams, user callbacks, the context switch, the allocator).
\<close>

datatype event =
    Lock_acquired ptr
  | Lock_released ptr
  | Wait_head_written ptr ptr
  | Waiter_flag_cleared ptr
  | Node_notified ptr
  | Node_unlinked ptr
  | Resume_called ptr
  | Task_pushed bool nat ptr
  | New_work_advertised ptr
  | Action_executed post_resume_action ptr
  | Callback_invoked ptr ptr ptr
  | Flag_stored ptr bool memory_order
  | Dispatcher_allocated ptr
  | Suspend_point_initialized ptr ptr
  | Context_switched ptr ptr
  | Recall_point_reached ptr

text \<open>
  Other threads change \<^verbatim>\<open>m_ref_count\<close> while a call runs. The field
  \<open>interference\<close> lists what they do to the counter of the wait context at hand
  before each atomic access of the calling thread, one entry per access: \<open>None\<close> leaves
  the counter as it is, \<open>Some v\<close> means it now holds \<open>v\<close>. Once the list is used up
  the other threads are quiet.
\<close>

record state =
  world :: world
  trace :: "event list"
  interference :: "64 word option list"

text \<open>
  Constants and macros of headers that are not part of the file: the two flag bits of
  \<^verbatim>\<open>m_ref_count\<close>, \<^verbatim>\<open>arena::ref_external\<close>, and whether
  \<^verbatim>\<open>__TBB_PREVIEW_CRITICAL_TASKS\<close> is set.
\<close>

record config =
  lock_flag :: "64 word"
  waiter_flag :: "64 word"
  ref_external :: int
  preview_critical_tasks :: bool

text \<open>The flag bits are distinct, non-empty masks.\<close>

definition flags_ok :: "config \<Rightarrow> bool" where
  "flags_ok c \<longleftrightarrow> lock_flag c \<noteq> 0 \<and> waiter_flag c \<noteq> 0 \<and> lock_flag c AND waiter_flag c = 0"

section \<open>Atomic accesses to \<^verbatim>\<open>m_ref_count\<close>\<close>

definition ref_count :: "ptr \<Rightarrow> state \<Rightarrow> 64 word" where
  "ref_count this s = m_ref_count (wait_contexts (world s) this)"

definition set_ref_count :: "ptr \<Rightarrow> 64 word \<Rightarrow> state \<Rightarrow> state" where
  "set_ref_count this v s =
     s\<lparr>world := (world s)\<lparr>wait_contexts :=
         (wait_contexts (world s))(this := (wait_contexts (world s) this)\<lparr>m_ref_count := v\<rparr>)\<rparr>\<rparr>"

definition wait_head :: "ptr \<Rightarrow> state \<Rightarrow> ptr" where
  "wait_head this s = m_wait_head (wait_contexts (world s) this)"

definition set_wait_head :: "ptr \<Rightarrow> ptr \<Rightarrow> state \<Rightarrow> state" where
  "set_wait_head this p s =
     s\<lparr>world := (world s)\<lparr>wait_contexts :=
         (wait_contexts (world s))(this := (wait_contexts (world s) this)\<lparr>m_wait_head := p\<rparr>)\<rparr>,
       trace := trace s @ [Wait_head_written this p]\<rparr>"

definition log :: "event \<Rightarrow> state \<Rightarrow> state" where
  "log e s = s\<lparr>trace := trace s @ [e]\<rparr>"

text \<open>What the other threads did to the counter since the last access.\<close>

definition other_threads :: "ptr \<Rightarrow> state \<Rightarrow> state" where
  "other_threads this s =
     (case interference s of
        [] \<Rightarrow> s
      | None # ws \<Rightarrow> s\<lparr>interference := ws\<rparr>
      | Some v # ws \<Rightarrow> set_ref_count this v (s\<lparr>interference := ws\<rparr>))"

definition atomic_load :: "ptr \<Rightarrow> state \<Rightarrow> 64 word \<times> state" where
  "atomic_load this s = (let s' = other_threads this s in (ref_count this s', s'))"

definition atomic_store :: "ptr \<Rightarrow> 64 word \<Rightarrow> state \<Rightarrow> state" where
  "atomic_store this v s = set_ref_count this v (other_threads this s)"

definition fetch_or :: "ptr \<Rightarrow> 64 word \<Rightarrow> state \<Rightarrow> 64 word \<times> state" where
  "fetch_or this m s =
     (let s' = other_threads this s; old = ref_count this s'
      in (old, set_ref_count this (old OR m) s'))"

definition fetch_and :: "ptr \<Rightarrow> 64 word \<Rightarrow> state \<Rightarrow> 64 word \<times> state" where
  "fetch_and this m s =
     (let s' = other_threads this s; old = ref_count this s'
      in (old, set_ref_count this (old AND m) s'))"

text \<open>
  \<^verbatim>\<open>compare_exchange_strong(expected, desired)\<close>: on success the counter holds
  \<open>desired\<close>; on failure \<open>expected\<close> is replaced by what the counter holds.
\<close>

definition compare_exchange_strong ::
  "ptr \<Rightarrow> 64 word \<Rightarrow> 64 word \<Rightarrow> state \<Rightarrow> bool \<times> 64 word \<times> state" where
  "compare_exchange_strong this expected desired s =
     (let s' = other_threads this s; cur = ref_count this s'
      in if cur = expected then (True, expected, set_ref_count this desired s')
         else (False, cur, s'))"

section \<open>\<^verbatim>\<open>d1::wait_context\<close>\<close>

definition is_locked :: "config \<Rightarrow> ptr \<Rightarrow> state \<Rightarrow> bool \<times> state" where
  "is_locked c this s =
     (case atomic_load this s of (r, s') \<Rightarrow> (r AND lock_flag c \<noteq> 0, s'))"

text \<open>
  \<^verbatim>\<open>lock()\<close> spins until \<^verbatim>\<open>try_lock\<close> succeeds; a call that spins forever has
  no result.
\<close>

partial_function (option) lock :: "config \<Rightarrow> ptr \<Rightarrow> state \<Rightarrow> state option" where
  "lock c this s =
     (case is_locked c this s of (locked, s1) \<Rightarrow>
        if locked then lock c this s1
        else case fetch_or this (lock_flag c) s1 of (old, s2) \<Rightarrow>
          if old AND lock_flag c = 0 then Some (log (Lock_acquired this) s2)
          else lock c this s2)"

definition unlock :: "config \<Rightarrow> ptr \<Rightarrow> state \<Rightarrow> error + state" where
  "unlock c this s =
     (case is_locked c this s of (locked, s1) \<Rightarrow>
        if \<not> locked then Inl (Assertion_failed ''is_locked()'')
        else case fetch_and this (NOT (lock_flag c)) s1 of (old, s2) \<Rightarrow>
          Inr (log (Lock_released this) s2))"

text \<open>
  Modelled from the spec: \<^verbatim>\<open>continue_execution()\<close> of \<^verbatim>\<open>_task.h\<close>, "outstanding
  count > 0", the count being the bits of \<^verbatim>\<open>m_ref_count\<close> outside the two flags.
\<close>

definition work_count :: "config \<Rightarrow> 64 word \<Rightarrow> 64 word" where
  "work_count c r = r AND NOT (lock_flag c OR waiter_flag c)"

definition continue_execution :: "config \<Rightarrow> ptr \<Rightarrow> state \<Rightarrow> bool \<times> state" where
  "continue_execution c this s =
     (case atomic_load this s of (r, s') \<Rightarrow> (work_count c r \<noteq> 0, s'))"

text \<open>The retry loop of \<^verbatim>\<open>publish_wait_list\<close>, on the local \<open>expected\<close>.\<close>

function publish_loop ::
  "config \<Rightarrow> ptr \<Rightarrow> 64 word \<Rightarrow> state \<Rightarrow> error + (64 word \<times> state)" where
  "publish_loop c this expected s =
     (if expected AND waiter_flag c \<noteq> 0 then Inr (expected, s)
      else case continue_execution c this s of (cont, s1) \<Rightarrow>
        if \<not> cont then Inr (expected, s1)
        else case compare_exchange_strong this expected (expected OR waiter_flag c) s1 of
          (ok, expected', s2) \<Rightarrow>
            if ok then
              (if expected' AND waiter_flag c \<noteq> 0
               then Inl (Assertion_failed ''!(expected & waiter_flag)'')
               else Inr (expected' OR waiter_flag c, s2))
            else publish_loop c this expected' s2)"
  by pat_completeness auto

lemma interference_set_ref_count [simp]:
  "interference (set_ref_count this v s) = interference s"
  by (simp add: set_ref_count_def)

lemma ref_count_set_ref_count [simp]: "ref_count this (set_ref_count this v s) = v"
  by (simp add: set_ref_count_def ref_count_def)

lemma length_other_threads:
  "length (interference (other_threads this s)) = length (interference s) - 1"
  by (simp add: other_threads_def split: list.splits option.splits)

lemma other_threads_quiet: "interference s = [] \<Longrightarrow> other_threads this s = s"
  by (simp add: other_threads_def)

text \<open>
  A failed exchange either used up an entry of the interference or, when the other
  threads are quiet, brought \<open>expected\<close> up to date.
\<close>

lemma publish_loop_decreases:
  assumes "continue_execution c this s = (cont, s1)"
    and "compare_exchange_strong this expected d s1 = (False, e', s2)"
  shows "2 * length (interference s2) + (if ref_count this s2 = e' then 0 else 1)
         < 2 * length (interference s) + (if ref_count this s = expected then 0 else 1)"
proof -
  have s1: "s1 = other_threads this s"
    using assms(1) by (auto simp: continue_execution_def atomic_load_def Let_def)
  have s2: "s2 = other_threads this s1" and e': "e' = ref_count this s2"
    and ne: "ref_count this s2 \<noteq> expected"
    using assms(2) by (auto simp: compare_exchange_strong_def Let_def split: if_splits)
  show ?thesis
  proof (cases "interference s")
    case Nil
    then show ?thesis using s1 s2 e' ne by (simp add: other_threads_quiet)
  next
    case (Cons a list)
    then have "length (interference s2) \<le> length (interference s) - 1"
      using s1 s2 by (simp add: length_other_threads)
    then show ?thesis using Cons e' by simp
  qed
qed

termination publish_loop
  apply (relation "measure (\<lambda>(c, this, expected, s).
         2 * length (interference s) + (if ref_count this s = expected then 0 else 1))")
   apply simp
  apply (clarsimp simp only: in_measure prod.case)
  apply (drule sym, drule sym)
  apply (frule (1) publish_loop_decreases)
  apply simp
  done

declare publish_loop.simps [simp del]

definition publish_wait_list :: "config \<Rightarrow> ptr \<Rightarrow> state \<Rightarrow> error + (bool \<times> state)" where
  "publish_wait_list c this s =
     (case atomic_load this s of (expected, s1) \<Rightarrow>
      case is_locked c this s1 of (locked, s2) \<Rightarrow>
        if \<not> (locked \<or> m_version_and_traits (wait_contexts (world s2) this) = 0)
        then Inl (Assertion_failed ''is_locked() || m_version_and_traits == 0'')
        else (case publish_loop c this expected s2 of
                Inl e \<Rightarrow> Inl e
              | Inr r \<Rightarrow> Inr ((fst r AND waiter_flag c) \<noteq> 0, snd r)))"

text \<open>
  Functions of headers that are not part of the file, taken as parameters:
  \<^verbatim>\<open>wait_node::unlink\<close>, \<^verbatim>\<open>wait_context::try_register_waiter\<close> (called with the
  wait context and the node), \<^verbatim>\<open>random_lane_selector\<close> (from the random state to the
  lane and the next random state), the user's suspend callback, the context switch
  \<^verbatim>\<open>co_context::resume\<close> (everything the other contexts do until control comes back)
  and \<^verbatim>\<open>task_dispatcher::recall_point\<close>.
\<close>

record collaborators =
  unlink :: "ptr \<Rightarrow> world \<Rightarrow> world"
  try_register_waiter :: "ptr \<Rightarrow> ptr \<Rightarrow> world \<Rightarrow> bool \<times> world"
  random_lane_selector :: "nat \<Rightarrow> nat \<times> nat"
  invoke_callback :: "suspend_callback_wrapper \<Rightarrow> world \<Rightarrow> world"
  co_context_resume :: "ptr \<Rightarrow> ptr \<Rightarrow> world \<Rightarrow> world"
  recall_point :: "ptr \<Rightarrow> world \<Rightarrow> world"

text \<open>
  \<^verbatim>\<open>lock_guard lock(*this)\<close> takes the lock where it is declared and releases it at the
  end of the function.
\<close>

definition unregister_waiter ::
  "config \<Rightarrow> collaborators \<Rightarrow> ptr \<Rightarrow> ptr \<Rightarrow> state \<Rightarrow> (error + state) option" where
  "unregister_waiter c k this n s =
     (case lock c this s of
        None \<Rightarrow> None
      | Some s1 \<Rightarrow>
          let s2 =
            (if wait_head this s1 \<noteq> nullptr then
               let s' = (if wait_head this s1 = n
                         then set_wait_head this (my_next (wait_nodes (world s1) n)) s1
                         else s1)
               in log (Node_unlinked n) (s'\<lparr>world := unlink k n (world s')\<rparr>)
             else s1)
          in Some (unlock c this s2))"

text \<open>
  Modelled from the spec: \<^verbatim>\<open>wait_node::notify_all\<close> of \<^verbatim>\<open>waiters.h\<close>, "single
  notification fans out to all registered nodes via their link chain", each node's
  resumption being triggered in turn. A chain that loops is never left.
\<close>

partial_function (option) notify_all :: "ptr \<Rightarrow> ptr \<Rightarrow> state \<Rightarrow> state option" where
  "notify_all n this s =
     (if n = nullptr then Some s
      else notify_all (my_next (wait_nodes (world s) n)) this (log (Node_notified n) s))"

definition notify_waiters :: "config \<Rightarrow> ptr \<Rightarrow> state \<Rightarrow> (error + state) option" where
  "notify_waiters c this s =
     (case lock c this s of
        None \<Rightarrow> None
      | Some s1 \<Rightarrow>
          (case (if wait_head this s1 \<noteq> nullptr
                 then map_option (set_wait_head this nullptr)
                        (notify_all (wait_head this s1) this s1)
                 else Some s1) of
             None \<Rightarrow> None
           | Some s2 \<Rightarrow>
               (case atomic_load this s2 of (r, s3) \<Rightarrow>
                  Some (unlock c this
                    (log (Waiter_flag_cleared this)
                       (atomic_store this (r AND NOT (waiter_flag c)) s3))))))"

section \<open>Resumable tasks\<close>

definition update_arena :: "ptr \<Rightarrow> (arena \<Rightarrow> arena) \<Rightarrow> state \<Rightarrow> state" where
  "update_arena a f s =
     s\<lparr>world := (world s)\<lparr>arenas := (arenas (world s))(a := f (arenas (world s) a))\<rparr>\<rparr>"

definition update_thread_data :: "ptr \<Rightarrow> (thread_data \<Rightarrow> thread_data) \<Rightarrow> state \<Rightarrow> state" where
  "update_thread_data td f s =
     s\<lparr>world := (world s)\<lparr>thread_datas :=
         (thread_datas (world s))(td := f (thread_datas (world s) td))\<rparr>\<rparr>"

definition update_dispatcher ::
  "ptr \<Rightarrow> (task_dispatcher \<Rightarrow> task_dispatcher) \<Rightarrow> state \<Rightarrow> state" where
  "update_dispatcher d f s =
     s\<lparr>world := (world s)\<lparr>task_dispatchers :=
         (task_dispatchers (world s))(d := f (task_dispatchers (world s) d))\<rparr>\<rparr>"

definition update_suspend_point ::
  "ptr \<Rightarrow> (suspend_point_type \<Rightarrow> suspend_point_type) \<Rightarrow> state \<Rightarrow> state" where
  "update_suspend_point sp f s =
     s\<lparr>world := (world s)\<lparr>suspend_points :=
         (suspend_points (world s))(sp := f (suspend_points (world s) sp))\<rparr>\<rparr>"

text \<open>A store to a \<^verbatim>\<open>std::atomic<bool>\<close>, with the memory order the source names.\<close>

definition store_flag :: "ptr \<Rightarrow> bool \<Rightarrow> memory_order \<Rightarrow> state \<Rightarrow> state" where
  "store_flag a b mo s =
     log (Flag_stored a b mo)
       (s\<lparr>world := (world s)\<lparr>atomic_bools := (atomic_bools (world s))(a := b)\<rparr>\<rparr>)"

text \<open>
  \<^verbatim>\<open>task_stream::push(task, random_lane_selector(sp->m_random))\<close>: the selector draws
  the lane from the suspend point's random state; the flag tells the critical stream
  from the stream of resume tasks.
\<close>

definition push_task :: "collaborators \<Rightarrow> bool \<Rightarrow> ptr \<Rightarrow> ptr \<Rightarrow> state \<Rightarrow> state" where
  "push_task k critical a sp s =
     (case random_lane_selector k (m_random (suspend_points (world s) sp)) of
        (lane, rnd) \<Rightarrow>
          log (Task_pushed critical lane sp)
            (update_arena a
               (\<lambda>ar. if critical
                     then ar\<lparr>my_critical_task_stream := my_critical_task_stream ar @ [(lane, sp)]\<rparr>
                     else ar\<lparr>my_resume_task_stream := my_resume_task_stream ar @ [(lane, sp)]\<rparr>)
               (update_suspend_point sp (\<lambda>p. p\<lparr>m_random := rnd\<rparr>) s)))"

text \<open>
  Modelled from the spec: \<^verbatim>\<open>arena::on_thread_leaving<ref_external>\<close>, "releases its own
  temporary external reference".
\<close>

definition on_thread_leaving :: "config \<Rightarrow> ptr \<Rightarrow> state \<Rightarrow> state" where
  "on_thread_leaving c a s =
     update_arena a (\<lambda>ar. ar\<lparr>my_references := my_references ar - ref_external c\<rparr>) s"

definition r1_resume :: "config \<Rightarrow> collaborators \<Rightarrow> ptr \<Rightarrow> state \<Rightarrow> error + state" where
  "r1_resume c k sp s0 =
     (let s = log (Resume_called sp) s0;
          a = m_arena (suspend_points (world s) sp)
      in if sp = nullptr \<or> a = nullptr
         then Inl (Assertion_failed ''assert_pointers_valid(sp, sp->m_arena)'')
         else
           let task_disp = m_target (m_resume_task (suspend_points (world s) sp))
           in if m_thread_data (task_dispatchers (world s) task_disp) \<noteq> nullptr
              then Inl (Assertion_failed ''task_disp.m_thread_data == nullptr'')
              else
                let s1 = update_arena a
                           (\<lambda>ar. ar\<lparr>my_references := my_references ar + ref_external c\<rparr>) s;
                    s2 = (if critical_task_allowed (task_dispatchers (world s1) task_disp)
                          then push_task k False a sp s1
                          else if preview_critical_tasks c
                               then push_task k True a sp s1
                               else s1);
                    s3 = log (New_work_advertised a) s2
                in Inr (on_thread_leaving c a s3))"

text \<open>
  Modelled from the spec: \<^verbatim>\<open>my_co_cache.pop()\<close> gives a cached dispatcher, or
  \<^verbatim>\<open>nullptr\<close> from an empty cache; a new dispatcher is detached and, once
  \<^verbatim>\<open>init_suspend_point\<close> has run, owns a suspend point of the arena whose resume task
  targets it and whose recall flag is clear. Fresh addresses come from \<open>next_address\<close>.
\<close>

definition co_cache_pop :: "ptr \<Rightarrow> state \<Rightarrow> ptr \<times> state" where
  "co_cache_pop a s =
     (case my_co_cache (arenas (world s) a) of
        [] \<Rightarrow> (nullptr, s)
      | d # ds \<Rightarrow> (d, update_arena a (\<lambda>ar. ar\<lparr>my_co_cache := ds\<rparr>) s))"

definition allocate :: "state \<Rightarrow> ptr \<times> state" where
  "allocate s =
     (next_address (world s), s\<lparr>world := (world s)\<lparr>next_address := next_address (world s) + 1\<rparr>\<rparr>)"

definition new_task_dispatcher :: "ptr \<Rightarrow> state \<Rightarrow> ptr \<times> state" where
  "new_task_dispatcher a s =
     (case allocate s of (d, s1) \<Rightarrow>
        (d, log (Dispatcher_allocated d)
              (update_dispatcher d
                 (\<lambda>_. \<lparr>m_thread_data = nullptr, m_suspend_point = nullptr,
                        critical_task_allowed = True, outermost = True\<rparr>) s1)))"

definition init_suspend_point :: "ptr \<Rightarrow> ptr \<Rightarrow> nat \<Rightarrow> state \<Rightarrow> state" where
  "init_suspend_point d a stack_size s =
     (case allocate s of (sp, s1) \<Rightarrow>
      case allocate s1 of (flag, s2) \<Rightarrow>
        log (Suspend_point_initialized d sp)
          (update_dispatcher d (\<lambda>t. t\<lparr>m_suspend_point := sp\<rparr>)
             (update_suspend_point sp
                (\<lambda>p. \<lparr>m_arena = a, m_random = m_random p, m_is_owner_recalled = flag,
                       m_resume_task = \<lparr>m_target = d\<rparr>\<rparr>)
                (s2\<lparr>world := (world s2)\<lparr>atomic_bools := (atomic_bools (world s2))(flag := False)\<rparr>\<rparr>))))"

definition create_coroutine :: "config \<Rightarrow> ptr \<Rightarrow> state \<Rightarrow> ptr \<times> state" where
  "create_coroutine c td s =
     (let a = my_arena (thread_datas (world s) td)
      in case co_cache_pop a s of (cached, s1) \<Rightarrow>
           case (if cached = nullptr
                 then (case new_task_dispatcher a s1 of (d, s2) \<Rightarrow>
                         (d, init_suspend_point d a
                               (my_market_worker_stack_size (arenas (world s2) a)) s2))
                 else (cached, s1)) of
             (task_disp, s3) \<Rightarrow>
               (task_disp,
                update_arena a
                  (\<lambda>ar. ar\<lparr>my_references := my_references ar + ref_external c\<rparr>) s3))"

text \<open>
  Modelled from the spec: the accessors and setters of \<^verbatim>\<open>thread_data.h\<close> and
  \<^verbatim>\<open>task_dispatcher.h\<close>: \<^verbatim>\<open>set_post_resume_action\<close> records the pending action
  and its argument, \<^verbatim>\<open>detach_task_dispatcher\<close> and \<^verbatim>\<open>attach_task_dispatcher\<close> are
  "pure bookkeeping" of the two back-references, \<^verbatim>\<open>get_suspend_point\<close> gives the
  dispatcher's suspend point.
\<close>

definition set_post_resume_action :: "ptr \<Rightarrow> post_resume_action \<Rightarrow> ptr \<Rightarrow> state \<Rightarrow> state" where
  "set_post_resume_action td act arg s =
     update_thread_data td (\<lambda>t. t\<lparr>my_post_resume_action := act, my_post_resume_arg := arg\<rparr>) s"

definition detach_task_dispatcher :: "ptr \<Rightarrow> state \<Rightarrow> state" where
  "detach_task_dispatcher td s =
     update_thread_data td (\<lambda>t. t\<lparr>my_task_dispatcher := nullptr\<rparr>)
       (update_dispatcher (my_task_dispatcher (thread_datas (world s) td))
          (\<lambda>d. d\<lparr>m_thread_data := nullptr\<rparr>) s)"

definition attach_task_dispatcher :: "ptr \<Rightarrow> ptr \<Rightarrow> state \<Rightarrow> state" where
  "attach_task_dispatcher td target s =
     update_thread_data td (\<lambda>t. t\<lparr>my_task_dispatcher := target\<rparr>)
       (update_dispatcher target (\<lambda>d. d\<lparr>m_thread_data := td\<rparr>) s)"

definition get_suspend_point :: "ptr \<Rightarrow> state \<Rightarrow> ptr" where
  "get_suspend_point d s = m_suspend_point (task_dispatchers (world s) d)"

text \<open>The \<^verbatim>\<open>register_waiter\<close> case of the switch.\<close>

definition register_waiter_action ::
  "config \<Rightarrow> collaborators \<Rightarrow> ptr \<Rightarrow> state \<Rightarrow> error + state" where
  "register_waiter_action c k arg s =
     (let data = register_waiter_datas (world s) arg
      in if m_version_and_traits (wait_contexts (world s) (wo data)) = 0
         then
           (case publish_wait_list c (wo data)
                   (set_wait_head (wo data)
                      (my_suspend_point (wait_nodes (world s) (node data))) s) of
              Inl e \<Rightarrow> Inl e
            | Inr r \<Rightarrow>
                if \<not> fst r
                then r1_resume c k (my_suspend_point (wait_nodes (world (snd r)) (node data))) (snd r)
                else Inr (snd r))
         else
           (case try_register_waiter k (wo data) (node data) (world s) of
              (registered, w) \<Rightarrow>
                if \<not> registered
                then r1_resume c k (my_suspend_point (wait_nodes w (node data))) (s\<lparr>world := w\<rparr>)
                else Inr (s\<lparr>world := w\<rparr>)))"

text \<open>
  \<^verbatim>\<open>thread_data::do_post_resume_action\<close>. The trace records which case of the
  switch runs, before the case's own effects.
\<close>

definition do_post_resume_action ::
  "config \<Rightarrow> collaborators \<Rightarrow> ptr \<Rightarrow> state \<Rightarrow> error + state" where
  "do_post_resume_action c k td s =
     (let act = my_post_resume_action (thread_datas (world s) td);
          arg = my_post_resume_arg (thread_datas (world s) td)
      in if act = none then Inl (Assertion_failed ''The post resume action must be set'')
         else if arg = nullptr
         then Inl (Assertion_failed ''The post resume action must have an argument'')
         else
           (case (case act of
                    register_waiter \<Rightarrow>
                      register_waiter_action c k arg (log (Action_executed register_waiter arg) s)
                  | callback \<Rightarrow>
                      (let cb = callback_wrappers (world s) arg;
                           s1 = log (Action_executed callback arg) s
                       in Inr (log (Callback_invoked (suspend_callback cb) (user_callback cb) (tag cb))
                                 (s1\<lparr>world := invoke_callback k cb (world s1)\<rparr>)))
                  | cleanup \<Rightarrow>
                      (let a = my_arena (thread_datas (world s) td)
                       in Inr (update_arena a (\<lambda>ar. ar\<lparr>my_co_cache := arg # my_co_cache ar\<rparr>)
                                 (on_thread_leaving c a (log (Action_executed cleanup arg) s))))
                  | notify \<Rightarrow>
                      Inr (store_flag arg True Release (log (Action_executed notify arg) s))
                  | none \<Rightarrow> Inl (Assertion_failed ''Unknown post resume action'')) of
              Inl e \<Rightarrow> Inl e
            | Inr s' \<Rightarrow>
                Inr (update_thread_data td
                       (\<lambda>t. t\<lparr>my_post_resume_action := none, my_post_resume_arg := nullptr\<rparr>) s')))"

text \<open>
  \<^verbatim>\<open>task_dispatcher::resume\<close>, second block: what the dispatcher does once the context
  switch has returned.
\<close>

definition resume_after_switch ::
  "config \<Rightarrow> collaborators \<Rightarrow> ptr \<Rightarrow> state \<Rightarrow> error + state" where
  "resume_after_switch c k this s =
     (let td = m_thread_data (task_dispatchers (world s) this)
      in if td = nullptr
         then Inl (Assertion_failed ''This task dispatcher must be attach to a thread data'')
         else if my_task_dispatcher (thread_datas (world s) td) \<noteq> this
         then Inl (Assertion_failed ''Thread data must be attached to this task dispatcher'')
         else
           (case do_post_resume_action c k td s of
              Inl e \<Rightarrow> Inl e
            | Inr s1 \<Rightarrow>
                (let slot = my_arena_slot (thread_datas (world s1) td)
                 in if slot = nullptr then Inl (Assertion_failed ''slot != nullptr'')
                    else if this = my_default_task_dispatcher (arena_slots (world s1) slot)
                    then
                      (if get_suspend_point this s1 = nullptr
                       then Inl (Assertion_failed ''m_suspend_point != nullptr'')
                       else Inr (store_flag
                              (m_is_owner_recalled (suspend_points (world s1) (get_suspend_point this s1)))
                              False Relaxed s1))
                    else Inr s1)))"

text \<open>
  \<^verbatim>\<open>task_dispatcher::resume\<close>, first block: the checks, then the thread data is
  detached from this dispatcher and attached to the target.
\<close>

definition resume_before_switch :: "ptr \<Rightarrow> ptr \<Rightarrow> state \<Rightarrow> error + state" where
  "resume_before_switch this target s =
     (let td = m_thread_data (task_dispatchers (world s) this)
      in if target = this then Inl (Assertion_failed ''We cannot resume to ourself'')
         else if td = nullptr
         then Inl (Assertion_failed ''This task dispatcher must be attach to a thread data'')
         else if my_task_dispatcher (thread_datas (world s) td) \<noteq> this
         then Inl (Assertion_failed ''Thread data must be attached to this task dispatcher'')
         else if my_post_resume_action (thread_datas (world s) td) = none
         then Inl (Assertion_failed ''The post resume action must be set'')
         else if my_post_resume_arg (thread_datas (world s) td) = nullptr
         then Inl (Assertion_failed ''The post resume action must have an argument'')
         else Inr (attach_task_dispatcher td target (detach_task_dispatcher td s)))"

text \<open>
  The switch to the target's context returns when some other context switches back to
  this one; by then the other contexts have changed the world.
\<close>

definition context_switch :: "collaborators \<Rightarrow> ptr \<Rightarrow> ptr \<Rightarrow> state \<Rightarrow> state" where
  "context_switch k this target s =
     (log (Context_switched this target) s)
       \<lparr>world := co_context_resume k (get_suspend_point this s) (get_suspend_point target s)
                   (world s)\<rparr>"

definition resume :: "config \<Rightarrow> collaborators \<Rightarrow> ptr \<Rightarrow> ptr \<Rightarrow> state \<Rightarrow> error + state" where
  "resume c k this target s =
     (case resume_before_switch this target s of
        Inl e \<Rightarrow> Inl e
      | Inr s1 \<Rightarrow>
          if get_suspend_point this s1 = nullptr \<or> get_suspend_point target s1 = nullptr
          then Inl (Assertion_failed ''Suspend point must be created'')
          else resume_after_switch c k this (context_switch k this target s1))"

text \<open>
  \<^verbatim>\<open>task_dispatcher::suspend\<close>. The callback wrapper is a local of the call; it gets a
  fresh address, which the pending action carries as its argument.
\<close>

definition suspend ::
  "config \<Rightarrow> collaborators \<Rightarrow> ptr \<Rightarrow> ptr \<Rightarrow> ptr \<Rightarrow> state \<Rightarrow> error + state" where
  "suspend c k this suspend_cb user_cb s =
     (let td = m_thread_data (task_dispatchers (world s) this)
      in if suspend_cb = nullptr then Inl (Assertion_failed ''suspend_callback != nullptr'')
         else if user_cb = nullptr then Inl (Assertion_failed ''user_callback != nullptr'')
         else if td = nullptr then Inl (Assertion_failed ''m_thread_data != nullptr'')
         else
           (let slot = my_arena_slot (thread_datas (world s) td)
            in if slot = nullptr then Inl (Assertion_failed ''slot != nullptr'')
               else
                 (let default_task_disp = my_default_task_dispatcher (arena_slots (world s) slot);
                      is_recalled = atomic_bools (world s)
                        (m_is_owner_recalled
                           (suspend_points (world s) (get_suspend_point default_task_disp s)))
                  in case (if is_recalled then (default_task_disp, s)
                           else create_coroutine c td s) of
                       (target, s1) \<Rightarrow>
                         (case allocate s1 of (cb, s2) \<Rightarrow>
                            (let s3 = s2\<lparr>world := (world s2)\<lparr>callback_wrappers :=
                                        (callback_wrappers (world s2))(cb :=
                                           \<lparr>suspend_callback = suspend_cb, user_callback = user_cb,
                                            tag = get_suspend_point this s2\<rparr>)\<rparr>\<rparr>;
                                 s4 = set_post_resume_action td callback cb s3
                             in case resume c k this target s4 of
                                  Inl e \<Rightarrow> Inl e
                                | Inr s5 \<Rightarrow>
                                    Inr (if outermost (task_dispatchers (world s5) this)
                                         then log (Recall_point_reached this)
                                                (s5\<lparr>world := recall_point k this (world s5)\<rparr>)
                                         else s5))))))"

section \<open>The entry point \<^verbatim>\<open>r1::notify_waiters\<close>\<close>

definition r1_notify_waiters :: "config \<Rightarrow> ptr \<Rightarrow> state \<Rightarrow> (error + state) option" where
  "r1_notify_waiters c wc s =
     (if m_version_and_traits (wait_contexts (world s) wc) > 0
      then notify_waiters c wc s
      else Some (Inl (Assertion_failed ''wc.m_version_and_traits > 0'')))"

section \<open>Notions the properties are stated with\<close>

text \<open>
  \<open>chain nodes p ns\<close>: following \<^verbatim>\<open>my_next\<close> from \<open>p\<close> visits exactly the nodes
  \<open>ns\<close>, in this order, and then reaches \<^verbatim>\<open>nullptr\<close>.
\<close>

fun chain :: "(ptr \<Rightarrow> wait_node) \<Rightarrow> ptr \<Rightarrow> ptr list \<Rightarrow> bool" where
  "chain nodes p [] \<longleftrightarrow> p = nullptr"
| "chain nodes p (n # ns) \<longleftrightarrow> p = n \<and> n \<noteq> nullptr \<and> chain nodes (my_next (nodes n)) ns"

text \<open>
  Every notification of a node in the trace comes after the caller released the lock of
  the wait context.
\<close>

fun notified_after_release :: "ptr \<Rightarrow> bool \<Rightarrow> event list \<Rightarrow> bool" where
  "notified_after_release this released [] \<longleftrightarrow> True"
| "notified_after_release this released (Lock_released w # es) \<longleftrightarrow>
     notified_after_release this (released \<or> w = this) es"
| "notified_after_release this released (Node_notified n # es) \<longleftrightarrow>
     released \<and> notified_after_release this released es"
| "notified_after_release this released (e # es) \<longleftrightarrow> notified_after_release this released es"

text \<open>
  Every write of \<^verbatim>\<open>m_wait_head\<close> in the trace happens while the caller holds the lock
  of that wait context: \<open>held\<close> lists the wait contexts whose lock the caller holds.
\<close>

fun head_writes_locked :: "ptr list \<Rightarrow> event list \<Rightarrow> bool" where
  "head_writes_locked held [] \<longleftrightarrow> True"
| "head_writes_locked held (Lock_acquired w # es) \<longleftrightarrow> head_writes_locked (w # held) es"
| "head_writes_locked held (Lock_released w # es) \<longleftrightarrow> head_writes_locked (removeAll w held) es"
| "head_writes_locked held (Wait_head_written w p # es) \<longleftrightarrow>
     w \<in> set held \<and> head_writes_locked held es"
| "head_writes_locked held (e # es) \<longleftrightarrow> head_writes_locked held es"

text \<open>The post-resume actions the trace shows as executed, in order.\<close>

fun executed_actions :: "event list \<Rightarrow> (post_resume_action \<times> ptr) list" where
  "executed_actions [] = []"
| "executed_actions (Action_executed a p # es) = (a, p) # executed_actions es"
| "executed_actions (e # es) = executed_actions es"

text \<open>The pushes to the task streams the trace shows, in order.\<close>

fun pushes :: "event list \<Rightarrow> (bool \<times> nat \<times> ptr) list" where
  "pushes [] = []"
| "pushes (Task_pushed critical lane t # es) = (critical, lane, t) # pushes es"
| "pushes (e # es) = pushes es"

text \<open>The second world is the first except for the counter of one wait context.\<close>

definition counter_changed :: "ptr \<Rightarrow> world \<Rightarrow> world \<Rightarrow> bool" where
  "counter_changed this w w' \<longleftrightarrow>
     (\<exists>r. w' = w\<lparr>wait_contexts := (wait_contexts w)(this := (wait_contexts w this)\<lparr>m_ref_count := r\<rparr>)\<rparr>)"

text \<open>The writes of \<^verbatim>\<open>m_wait_head\<close> the trace shows: wait context and new head.\<close>

fun head_writes :: "event list \<Rightarrow> (ptr \<times> ptr) list" where
  "head_writes [] = []"
| "head_writes (Wait_head_written w p # es) = (w, p) # head_writes es"
| "head_writes (e # es) = head_writes es"

text \<open>
  What a call of \<^verbatim>\<open>r1::resume\<close> that returns adds to the trace, and the suspend points
  the trace shows \<^verbatim>\<open>r1::resume\<close> called on.
\<close>

definition resume_trace :: "config \<Rightarrow> collaborators \<Rightarrow> ptr \<Rightarrow> state \<Rightarrow> event list" where
  "resume_trace c k sp s =
     Resume_called sp #
      (if critical_task_allowed (task_dispatchers (world s)
            (m_target (m_resume_task (suspend_points (world s) sp))))
       then [Task_pushed False (fst (random_lane_selector k (m_random (suspend_points (world s) sp)))) sp]
       else if preview_critical_tasks c
       then [Task_pushed True (fst (random_lane_selector k (m_random (suspend_points (world s) sp)))) sp]
       else []) @
      [New_work_advertised (m_arena (suspend_points (world s) sp))]"

fun resume_calls :: "event list \<Rightarrow> ptr list" where
  "resume_calls [] = []"
| "resume_calls (Resume_called sp # es) = sp # resume_calls es"
| "resume_calls (e # es) = resume_calls es"

text \<open>The dispatchers the trace shows as newly allocated, in order.\<close>

fun allocations :: "event list \<Rightarrow> ptr list" where
  "allocations [] = []"
| "allocations (Dispatcher_allocated d # es) = d # allocations es"
| "allocations (e # es) = allocations es"

text \<open>
  The state in which \<^verbatim>\<open>suspend\<close> calls \<^verbatim>\<open>resume\<close>: the callback wrapper is in
  place at its fresh address and is the argument of the pending \<^verbatim>\<open>callback\<close> action.
\<close>

definition suspend_callback_state :: "ptr \<Rightarrow> ptr \<Rightarrow> ptr \<Rightarrow> ptr \<Rightarrow> state \<Rightarrow> state" where
  "suspend_callback_state td this scb ucb s1 =
     set_post_resume_action td callback (next_address (world s1))
       ((snd (allocate s1))\<lparr>world := (world (snd (allocate s1)))\<lparr>callback_wrappers :=
            (callback_wrappers (world (snd (allocate s1))))(next_address (world s1) :=
               \<lparr>suspend_callback = scb, user_callback = ucb,
                tag = get_suspend_point this (snd (allocate s1))\<rparr>)\<rparr>\<rparr>)"

text \<open>
  The other threads only change the count, and work that is done stays done: starting from
  the counter value \<open>r\<close>, no entry of the interference changes the flag bits, and none
  raises a count that has reached zero.
\<close>

definition flag_bits :: "config \<Rightarrow> 64 word \<Rightarrow> 64 word" where
  "flag_bits c r = r AND (lock_flag c OR waiter_flag c)"

fun work_stays_done :: "config \<Rightarrow> 64 word \<Rightarrow> 64 word option list \<Rightarrow> bool" where
  "work_stays_done c r [] \<longleftrightarrow> True"
| "work_stays_done c r (None # ws) \<longleftrightarrow> work_stays_done c r ws"
| "work_stays_done c r (Some v # ws) \<longleftrightarrow>
     (work_count c r = 0 \<longrightarrow> work_count c v = 0) \<and> flag_bits c v = flag_bits c r \<and>
     work_stays_done c v ws"

section \<open>Sample configuration and states\<close>

text \<open>
  A wait context at address 1 with two units of work, its waiter flag set and two
  registered nodes (5, then 6); a detached dispatcher 4 suspended at suspend point 2; a
  thread 30 attached to its default dispatcher 9, whose suspend point is 10; arena 3.
\<close>

definition sample_config :: config where
  "sample_config = \<lparr>lock_flag = 0x200000000, waiter_flag = 0x100000000, ref_external = 1,
     preview_critical_tasks = True\<rparr>"

definition sample_world :: world where
  "sample_world =
     \<lparr>wait_contexts = (\<lambda>_. \<lparr>m_version_and_traits = 1, m_ref_count = 0, m_wait_head = nullptr\<rparr>)
        (1 := \<lparr>m_version_and_traits = 1, m_ref_count = 0x100000002, m_wait_head = 5\<rparr>),
      wait_nodes = (\<lambda>_. \<lparr>my_next = nullptr, my_suspend_point = nullptr\<rparr>)
        (5 := \<lparr>my_next = 6, my_suspend_point = 2\<rparr>, 6 := \<lparr>my_next = nullptr, my_suspend_point = 20\<rparr>),
      thread_datas = (\<lambda>_. \<lparr>my_task_dispatcher = nullptr, my_arena = nullptr, my_arena_slot = nullptr,
          my_post_resume_action = none, my_post_resume_arg = nullptr\<rparr>)
        (30 := \<lparr>my_task_dispatcher = 9, my_arena = 3, my_arena_slot = 8,
          my_post_resume_action = none, my_post_resume_arg = nullptr\<rparr>),
      register_waiter_datas = (\<lambda>_. \<lparr>wo = nullptr, node = nullptr\<rparr>)(7 := \<lparr>wo = 1, node = 5\<rparr>),
      callback_wrappers = (\<lambda>_. \<lparr>suspend_callback = nullptr, user_callback = nullptr, tag = nullptr\<rparr>),
      task_dispatchers = (\<lambda>_. \<lparr>m_thread_data = nullptr, m_suspend_point = nullptr,
          critical_task_allowed = True, outermost = True\<rparr>)
        (4 := \<lparr>m_thread_data = nullptr, m_suspend_point = 2, critical_task_allowed = True, outermost = False\<rparr>,
         9 := \<lparr>m_thread_data = 30, m_suspend_point = 10, critical_task_allowed = True, outermost = True\<rparr>),
      suspend_points = (\<lambda>_. \<lparr>m_arena = nullptr, m_random = 0, m_is_owner_recalled = nullptr,
          m_resume_task = \<lparr>m_target = nullptr\<rparr>\<rparr>)
        (2 := \<lparr>m_arena = 3, m_random = 7, m_is_owner_recalled = 12, m_resume_task = \<lparr>m_target = 4\<rparr>\<rparr>,
         10 := \<lparr>m_arena = 3, m_random = 0, m_is_owner_recalled = 11, m_resume_task = \<lparr>m_target = 9\<rparr>\<rparr>),
      arena_slots = (\<lambda>_. \<lparr>my_default_task_dispatcher = 9\<rparr>),
      arenas = (\<lambda>_. \<lparr>my_references = 1, my_resume_task_stream = [], my_critical_task_stream = [],
          my_co_cache = [], my_market_worker_stack_size = 0\<rparr>),
      atomic_bools = (\<lambda>_. False),
      next_address = 100\<rparr>"

text \<open>
  A sample of what the other contexts do during a context switch from suspend point
  \<open>a\<close> to suspend point \<open>b\<close>: thread 30 runs the target dispatcher, which in the end
  switches back, so that thread 30 is attached to the first dispatcher again and the
  target is detached; the pending action asks to clean the target up, or, when the target
  is the default dispatcher 9, to set its recall flag.
\<close>

definition sample_switch_back :: "ptr \<Rightarrow> ptr \<Rightarrow> world \<Rightarrow> world" where
  "sample_switch_back a b w =
     (let home = m_target (m_resume_task (suspend_points w a));
          away = m_target (m_resume_task (suspend_points w b))
      in w\<lparr>thread_datas := (thread_datas w)
             (30 := (thread_datas w 30)
                \<lparr>my_task_dispatcher := home,
                 my_post_resume_action := (if away = 9 then notify else cleanup),
                 my_post_resume_arg := (if away = 9 then 11 else away)\<rparr>),
           task_dispatchers := (task_dispatchers w)
             (away := (task_dispatchers w away)\<lparr>m_thread_data := nullptr\<rparr>,
              home := (task_dispatchers w home)\<lparr>m_thread_data := 30\<rparr>)\<rparr>)"

definition sample_collaborators :: collaborators where
  "sample_collaborators =
     \<lparr>unlink = (\<lambda>n w. w), try_register_waiter = (\<lambda>wc n w. (False, w)),
      random_lane_selector = (\<lambda>r. (r mod 4, r + 1)), invoke_callback = (\<lambda>cb w. w),
      co_context_resume = sample_switch_back, recall_point = (\<lambda>d w. w)\<rparr>"

definition sample_state :: state where
  "sample_state = \<lparr>world = sample_world, trace = [], interference = []\<rparr>"

definition legacy_state :: state where
  "legacy_state = sample_state\<lparr>world := sample_world\<lparr>wait_contexts :=
     (wait_contexts sample_world)(1 := \<lparr>m_version_and_traits = 0, m_ref_count = 0, m_wait_head = nullptr\<rparr>)\<rparr>\<rparr>"

text \<open>The sample state after \<^verbatim>\<open>notify_waiters\<close> on the wait context.\<close>

definition notified_state :: state where
  "notified_state =
     \<lparr>world = sample_world\<lparr>wait_contexts := (wait_contexts sample_world)
         (1 := \<lparr>m_version_and_traits = 1, m_ref_count = 2, m_wait_head = nullptr\<rparr>)\<rparr>,
      trace = [Lock_acquired 1, Node_notified 5, Node_notified 6, Wait_head_written 1 nullptr,
               Waiter_flag_cleared 1, Lock_released 1],
      interference = []\<rparr>"

text \<open>
  The sample state with dispatcher 4 suspended in the middle of a critical task; and the
  sample states after \<^verbatim>\<open>r1::resume\<close> of suspend point 2.
\<close>

definition mid_critical_state :: state where
  "mid_critical_state = sample_state\<lparr>world := sample_world\<lparr>task_dispatchers :=
     (task_dispatchers sample_world)(4 := \<lparr>m_thread_data = nullptr, m_suspend_point = 2,
        critical_task_allowed = False, outermost = False\<rparr>)\<rparr>\<rparr>"

definition resumed_state :: "bool \<Rightarrow> state \<Rightarrow> state" where
  "resumed_state critical s =
     s\<lparr>world := (world s)\<lparr>
          suspend_points := (suspend_points (world s))
            (2 := \<lparr>m_arena = 3, m_random = 8, m_is_owner_recalled = 12,
                   m_resume_task = \<lparr>m_target = 4\<rparr>\<rparr>),
          arenas := (arenas (world s))
            (3 := \<lparr>my_references = 1,
                   my_resume_task_stream = (if critical then [] else [(3, 2)]),
                   my_critical_task_stream = (if critical then [(3, 2)] else []),
                   my_co_cache = [], my_market_worker_stack_size = 0\<rparr>)\<rparr>,
        trace := [Resume_called 2, Task_pushed critical 3 2, New_work_advertised 3]\<rparr>"

text \<open>
  The states after the \<^verbatim>\<open>register_waiter\<close> action of thread 30 for node 5: on the
  legacy wait context, whose work is done, and on the sample wait context with the sample
  \<^verbatim>\<open>try_register_waiter\<close>, which refuses.
\<close>

definition legacy_resumed_state :: state where
  "legacy_resumed_state =
     \<lparr>world = sample_world\<lparr>
        wait_contexts := (wait_contexts sample_world)
          (1 := \<lparr>m_version_and_traits = 0, m_ref_count = 0, m_wait_head = 2\<rparr>),
        suspend_points := (suspend_points sample_world)
          (2 := \<lparr>m_arena = 3, m_random = 8, m_is_owner_recalled = 12,
                 m_resume_task = \<lparr>m_target = 4\<rparr>\<rparr>),
        arenas := (arenas sample_world)
          (3 := \<lparr>my_references = 1, my_resume_task_stream = [(3, 2)],
                 my_critical_task_stream = [], my_co_cache = [],
                 my_market_worker_stack_size = 0\<rparr>)\<rparr>,
      trace = [Action_executed register_waiter 7, Wait_head_written 1 2, Resume_called 2,
               Task_pushed False 3 2, New_work_advertised 3],
      interference = []\<rparr>"

definition current_resumed_state :: state where
  "current_resumed_state =
     \<lparr>world = sample_world\<lparr>
        suspend_points := (suspend_points sample_world)
          (2 := \<lparr>m_arena = 3, m_random = 8, m_is_owner_recalled = 12,
                 m_resume_task = \<lparr>m_target = 4\<rparr>\<rparr>),
        arenas := (arenas sample_world)
          (3 := \<lparr>my_references = 1, my_resume_task_stream = [(3, 2)],
                 my_critical_task_stream = [], my_co_cache = [],
                 my_market_worker_stack_size = 0\<rparr>)\<rparr>,
      trace = [Action_executed register_waiter 7, Resume_called 2,
               Task_pushed False 3 2, New_work_advertised 3],
      interference = []\<rparr>"

text \<open>
  Thread 30 away from home, attached to dispatcher 4; and the states after a
  \<^verbatim>\<open>resume\<close> from the default dispatcher 9 to dispatcher 4, and from dispatcher 4 to
  the default dispatcher, each with the sample context switch.
\<close>

definition away_state :: state where
  "away_state = sample_state\<lparr>world := sample_world\<lparr>
     thread_datas := (thread_datas sample_world)
       (30 := \<lparr>my_task_dispatcher = 4, my_arena = 3, my_arena_slot = 8,
               my_post_resume_action = none, my_post_resume_arg = nullptr\<rparr>),
     task_dispatchers := (task_dispatchers sample_world)
       (4 := \<lparr>m_thread_data = 30, m_suspend_point = 2, critical_task_allowed = True,
              outermost = False\<rparr>,
        9 := \<lparr>m_thread_data = nullptr, m_suspend_point = 10, critical_task_allowed = True,
              outermost = True\<rparr>)\<rparr>\<rparr>"

definition back_home_state :: state where
  "back_home_state = sample_state\<lparr>world := sample_world\<lparr>
       arenas := (arenas sample_world)
         (3 := \<lparr>my_references = 0, my_resume_task_stream = [], my_critical_task_stream = [],
                my_co_cache = [4], my_market_worker_stack_size = 0\<rparr>)\<rparr>,
     trace := [Context_switched 9 4, Action_executed cleanup 4, Flag_stored 11 False Relaxed]\<rparr>"

definition back_away_state :: state where
  "back_away_state = away_state\<lparr>world := (world away_state)\<lparr>
       atomic_bools := (atomic_bools sample_world)(11 := True)\<rparr>,
     trace := [Context_switched 4 9, Action_executed notify 11, Flag_stored 11 True Release]\<rparr>"

text \<open>
  Sample states for \<^verbatim>\<open>suspend\<close>: thread 30 away from home with the recall flag of its
  default dispatcher set; thread 30 at home with dispatcher 4 in the coroutine cache; and
  the states after \<^verbatim>\<open>suspend\<close> from each of them and from the sample state, whose cache
  is empty.
\<close>

definition recalled_state :: state where
  "recalled_state = away_state\<lparr>world := (world away_state)\<lparr>
     atomic_bools := (atomic_bools sample_world)(11 := True)\<rparr>\<rparr>"

definition cached_state :: state where
  "cached_state = sample_state\<lparr>world := sample_world\<lparr>
     arenas := (arenas sample_world)
       (3 := \<lparr>my_references = 1, my_resume_task_stream = [], my_critical_task_stream = [],
              my_co_cache = [4], my_market_worker_stack_size = 0\<rparr>)\<rparr>\<rparr>"

definition suspended_recalled_state :: state where
  "suspended_recalled_state = recalled_state\<lparr>world := (world recalled_state)\<lparr>
       callback_wrappers := (callback_wrappers sample_world)
         (100 := \<lparr>suspend_callback = 40, user_callback = 41, tag = 2\<rparr>),
       next_address := 101\<rparr>,
     trace := [Context_switched 4 9, Action_executed notify 11, Flag_stored 11 True Release]\<rparr>"

definition suspended_cached_state :: state where
  "suspended_cached_state = cached_state\<lparr>world := (world cached_state)\<lparr>
       callback_wrappers := (callback_wrappers sample_world)
         (100 := \<lparr>suspend_callback = 40, user_callback = 41, tag = 10\<rparr>),
       next_address := 101\<rparr>,
     trace := [Context_switched 9 4, Action_executed cleanup 4, Flag_stored 11 False Relaxed,
               Recall_point_reached 9]\<rparr>"

definition suspended_fresh_state :: state where
  "suspended_fresh_state = sample_state\<lparr>world := sample_world\<lparr>
       callback_wrappers := (callback_wrappers sample_world)
         (103 := \<lparr>suspend_callback = 40, user_callback = 41, tag = 10\<rparr>),
       task_dispatchers := (task_dispatchers sample_world)
         (100 := \<lparr>m_thread_data = nullptr, m_suspend_point = 101,
                  critical_task_allowed = True, outermost = True\<rparr>),
       suspend_points := (suspend_points sample_world)
         (101 := \<lparr>m_arena = 3, m_random = 0, m_is_owner_recalled = 102,
                  m_resume_task = \<lparr>m_target = 100\<rparr>\<rparr>),
       arenas := (arenas sample_world)
         (3 := \<lparr>my_references = 1, my_resume_task_stream = [], my_critical_task_stream = [],
                my_co_cache = [100], my_market_worker_stack_size = 0\<rparr>),
       next_address := 104\<rparr>,
     trace := [Dispatcher_allocated 100, Suspend_point_initialized 100 101,
               Context_switched 9 100, Action_executed cleanup 100,
               Flag_stored 11 False Relaxed, Recall_point_reached 9]\<rparr>"

text \<open>The sample state after \<^verbatim>\<open>unregister_waiter\<close> of node 5, the head of the list.\<close>

definition unregistered_state :: state where
  "unregistered_state = sample_state\<lparr>world := sample_world\<lparr>wait_contexts :=
       (wait_contexts sample_world)
         (1 := \<lparr>m_version_and_traits = 1, m_ref_count = 0x100000002, m_wait_head = 6\<rparr>)\<rparr>,
     trace := [Lock_acquired 1, Wait_head_written 1 6, Node_unlinked 5, Lock_released 1]\<rparr>"

text \<open>
  The caller holds the lock of the sample wait context, whose work is done. While it runs
  \<^verbatim>\<open>publish_wait_list\<close>, another thread reserves one unit of work (before the call's
  \<^verbatim>\<open>continue_execution\<close>) and releases it again (before the call's
  \<^verbatim>\<open>compare_exchange_strong\<close>).
\<close>

definition aba_state :: state where
  "aba_state = sample_state\<lparr>world := sample_world\<lparr>wait_contexts := (wait_contexts sample_world)
       (1 := \<lparr>m_version_and_traits = 1, m_ref_count = 0x200000000, m_wait_head = 5\<rparr>)\<rparr>,
     interference := [None, None, Some 0x200000001, Some 0x200000000]\<rparr>"

text \<open>
  A context switch that follows the code of the target as well: the target is itself
  inside \<^verbatim>\<open>task_dispatcher::resume\<close>, just after its own switch, so that when control
  arrives it runs the second block of that function, which executes and clears the action
  that was pending when the switch began. Later the target switches back as in
  \<open>sample_switch_back\<close>.
\<close>

definition sample_round_trip :: "ptr \<Rightarrow> ptr \<Rightarrow> world \<Rightarrow> world" where
  "sample_round_trip a b w =
     (case resume_after_switch sample_config sample_collaborators
             (m_target (m_resume_task (suspend_points w b)))
             \<lparr>world = w, trace = [], interference = []\<rparr> of
        Inl e \<Rightarrow> w
      | Inr s \<Rightarrow> sample_switch_back a b (world s))"

definition round_trip_collaborators :: collaborators where
  "round_trip_collaborators = sample_collaborators\<lparr>co_context_resume := sample_round_trip\<rparr>"

section \<open>Auxiliary facts\<close>

lemma counter_changed_refl [simp]: "counter_changed this w w"
  unfolding counter_changed_def
  by (rule exI[of _ "m_ref_count (wait_contexts w this)"]) simp

lemma counter_changed_trans:
  "counter_changed this w w1 \<Longrightarrow> counter_changed this w1 w2 \<Longrightarrow> counter_changed this w w2"
  unfolding counter_changed_def by auto

lemma counter_changed_set_ref_count [simp]:
  "world s' = world s \<Longrightarrow> counter_changed this (world s) (world (set_ref_count this r s'))"
  unfolding counter_changed_def set_ref_count_def by auto

lemma counter_changed_head:
  "counter_changed this w w' \<Longrightarrow> m_wait_head (wait_contexts w' x) = m_wait_head (wait_contexts w x)"
  unfolding counter_changed_def by auto

lemma counter_changed_nodes:
  "counter_changed this w w' \<Longrightarrow> wait_nodes w' = wait_nodes w"
  unfolding counter_changed_def by auto

lemma trace_set_ref_count [simp]: "trace (set_ref_count this r s) = trace s"
  by (simp add: set_ref_count_def)

lemma other_threads_frame:
  "trace (other_threads this s) = trace s \<and> counter_changed this (world s) (world (other_threads this s))"
  by (simp add: other_threads_def split: list.splits option.splits)

lemma is_locked_frame:
  "is_locked c this s = (b, s1) \<Longrightarrow> trace s1 = trace s \<and> counter_changed this (world s) (world s1)"
  using other_threads_frame[of this s]
  by (auto simp: is_locked_def atomic_load_def Let_def)

lemma fetch_or_frame:
  "fetch_or this m s = (old, s1) \<Longrightarrow> trace s1 = trace s \<and> counter_changed this (world s) (world s1)"
  using other_threads_frame[of this s]
  by (auto simp: fetch_or_def Let_def intro: counter_changed_trans)

lemma fetch_and_frame:
  "fetch_and this m s = (old, s1) \<Longrightarrow> trace s1 = trace s \<and> counter_changed this (world s) (world s1)"
  using other_threads_frame[of this s]
  by (auto simp: fetch_and_def Let_def intro: counter_changed_trans)

lemma atomic_load_frame:
  "atomic_load this s = (r, s1) \<Longrightarrow> trace s1 = trace s \<and> counter_changed this (world s) (world s1)"
  using other_threads_frame[of this s]
  by (auto simp: atomic_load_def Let_def)

lemma atomic_store_frame:
  "trace (atomic_store this v s) = trace s \<and> counter_changed this (world s) (world (atomic_store this v s))"
  using other_threads_frame[of this s]
  by (auto simp: atomic_store_def intro: counter_changed_trans)

lemma unlock_frame:
  "unlock c this s = Inr s' \<Longrightarrow>
     trace s' = trace s @ [Lock_released this] \<and> counter_changed this (world s) (world s')"
proof -
  assume u: "unlock c this s = Inr s'"
  obtain b s1 where l: "is_locked c this s = (b, s1)" by fastforce
  obtain old s2 where fa: "fetch_and this (NOT (lock_flag c)) s1 = (old, s2)" by fastforce
  from u l fa have "s' = log (Lock_released this) s2"
    by (auto simp: unlock_def split: if_splits)
  with is_locked_frame[OF l] fetch_and_frame[OF fa] show ?thesis
    by (auto simp: log_def intro: counter_changed_trans)
qed

lemma lock_result:
  assumes "lock c this s = Some s'"
  shows "trace s' = trace s @ [Lock_acquired this] \<and> counter_changed this (world s) (world s')"
proof (rule lock.raw_induct[where P = "\<lambda>c this s s'. trace s' = trace s @ [Lock_acquired this]
         \<and> counter_changed this (world s) (world s')", OF _ assms], goal_cases)
  case (1 f c this s s')
  obtain b s1 where l: "is_locked c this s = (b, s1)" by fastforce
  obtain old s2 where fo: "fetch_or this (lock_flag c) s1 = (old, s2)" by fastforce
  note f1 = is_locked_frame[OF l] and f2 = fetch_or_frame[OF fo]
  show ?case
  proof (cases b)
    case True
    then have "f c this s1 = Some s'"
      using 1(2) l by simp
    from 1(1)[OF this] f1 show ?thesis by (auto intro: counter_changed_trans)
  next
    case False
    show ?thesis
    proof (cases "old AND lock_flag c = 0")
      case True
      then have "s' = log (Lock_acquired this) s2" using 1(2) l fo False by simp
      then show ?thesis using f1 f2 by (auto simp: log_def intro: counter_changed_trans)
    next
      case nz: False
      then have "f c this s2 = Some s'"
        using 1(2) l fo False by simp
      from 1(1)[OF this] f1 f2 show ?thesis by (auto intro: counter_changed_trans)
    qed
  qed
qed

lemma lock_quiet:
  assumes "interference s = []" and "ref_count this s AND lock_flag c = 0"
  shows "lock c this s =
         Some (log (Lock_acquired this) (set_ref_count this (ref_count this s OR lock_flag c) s))"
  using assms
  by (subst lock.simps) (simp add: is_locked_def atomic_load_def fetch_or_def other_threads_quiet Let_def)

lemma notify_all_chain:
  "chain (wait_nodes (world s)) n ns \<Longrightarrow>
     notify_all n this s = Some (s\<lparr>trace := trace s @ map Node_notified ns\<rparr>)"
proof (induction ns arbitrary: n s)
  case Nil
  then show ?case by (subst notify_all.simps) simp
next
  case (Cons a ns)
  then have "chain (wait_nodes (world (log (Node_notified a) s))) (my_next (wait_nodes (world s) a)) ns"
    by (simp add: log_def)
  from Cons.IH[OF this, of ] Cons.prems show ?case
    by (subst notify_all.simps) (simp add: log_def)
qed

lemma notify_all_result:
  assumes "notify_all n this s = Some s'"
  shows "\<exists>ns. chain (wait_nodes (world s)) n ns \<and> s' = s\<lparr>trace := trace s @ map Node_notified ns\<rparr>"
proof (rule notify_all.raw_induct[where P = "\<lambda>n this s s'. \<exists>ns. chain (wait_nodes (world s)) n ns
      \<and> s' = s\<lparr>trace := trace s @ map Node_notified ns\<rparr>", OF _ assms], goal_cases)
  case (1 f n this s s')
  show ?case
  proof (cases "n = nullptr")
    case True
    with 1(2) have "s' = s" by simp
    with True show ?thesis by (intro exI[of _ "[]"]) simp
  next
    case False
    with 1(2) have "f (my_next (wait_nodes (world s) n)) this (log (Node_notified n) s) = Some s'"
      by simp
    from 1(1)[OF this] obtain ns where
      "chain (wait_nodes (world s)) (my_next (wait_nodes (world s) n)) ns"
      "s' = s\<lparr>trace := trace s @ Node_notified n # map Node_notified ns\<rparr>"
      by (auto simp: log_def)
    with False show ?thesis by (intro exI[of _ "n # ns"]) simp
  qed
qed

lemma and_not_and [simp]: "((r::64 word) AND NOT m) AND m = 0"
  by (simp add: bit_eq_iff bit_simps)

lemma or_and_self [simp]: "((r::64 word) OR m) AND m = m"
  by (simp add: bit_eq_iff bit_simps)

lemma or_and_not: "(r::64 word) AND m = 0 \<Longrightarrow> (r OR m) AND NOT m = r"
  by (auto simp add: bit_eq_iff bit_simps)

lemma unlock_result:
  assumes "unlock c this s = Inr s'"
  shows "ref_count this s' AND lock_flag c = 0"
proof -
  obtain b s1 where l: "is_locked c this s = (b, s1)" by fastforce
  from assms l show ?thesis
    by (auto simp: unlock_def fetch_and_def Let_def log_def ref_count_def set_ref_count_def
        split: if_splits)
qed

lemma wait_head_counter_changed:
  "counter_changed this (world s) (world s') \<Longrightarrow> wait_head x s' = wait_head x s"
  by (simp add: wait_head_def counter_changed_head)

lemma set_ref_count_same: "ref_count this s = r \<Longrightarrow> world (set_ref_count this r s) = world s"
  by (auto simp: set_ref_count_def ref_count_def)

text \<open>The parts of \<^verbatim>\<open>notify_waiters\<close>, named.\<close>

lemma notify_waiters_parts:
  assumes "notify_waiters c this s = Some (Inr s')"
  obtains s1 s2 r s3 where
    "lock c this s = Some s1"
    "(if wait_head this s1 \<noteq> nullptr
      then map_option (set_wait_head this nullptr) (notify_all (wait_head this s1) this s1)
      else Some s1) = Some s2"
    "atomic_load this s2 = (r, s3)"
    "unlock c this (log (Waiter_flag_cleared this)
       (atomic_store this (r AND NOT (waiter_flag c)) s3)) = Inr s'"
proof -
  from assms obtain s1 where l: "lock c this s = Some s1"
    by (auto simp: notify_waiters_def split: option.splits)
  from assms l obtain s2 where
    n: "(if wait_head this s1 \<noteq> nullptr
         then map_option (set_wait_head this nullptr) (notify_all (wait_head this s1) this s1)
         else Some s1) = Some s2"
    by (auto simp: notify_waiters_def split: option.splits)
  obtain r s3 where al: "atomic_load this s2 = (r, s3)" by fastforce
  from assms l n al have "unlock c this (log (Waiter_flag_cleared this)
       (atomic_store this (r AND NOT (waiter_flag c)) s3)) = Inr s'"
    by (simp add: notify_waiters_def)
  with l n al show ?thesis by (rule that)
qed

lemma notify_waiters_result:
  assumes "notify_waiters c this s = Some (Inr s')"
  shows "wait_head this s' = nullptr \<and> ref_count this s' AND lock_flag c = 0"
proof -
  from assms obtain s1 s2 r s3 where
    n: "(if wait_head this s1 \<noteq> nullptr
         then map_option (set_wait_head this nullptr) (notify_all (wait_head this s1) this s1)
         else Some s1) = Some s2"
    and al: "atomic_load this s2 = (r, s3)"
    and u: "unlock c this (log (Waiter_flag_cleared this)
       (atomic_store this (r AND NOT (waiter_flag c)) s3)) = Inr s'"
    by (rule notify_waiters_parts)
  have h2: "wait_head this s2 = nullptr"
  proof (cases "wait_head this s1 = nullptr")
    case True
    with n show ?thesis by simp
  next
    case False
    with n obtain s1' where "s2 = set_wait_head this nullptr s1'" by auto
    then show ?thesis by (simp add: set_wait_head_def wait_head_def)
  qed
  have "counter_changed this (world s2) (world s')"
    using atomic_load_frame[OF al] atomic_store_frame[of this "r AND NOT (waiter_flag c)" s3]
      unlock_frame[OF u]
    by (auto simp: log_def intro: counter_changed_trans)
  with h2 unlock_result[OF u] show ?thesis by (simp add: wait_head_counter_changed)
qed

lemma lock_cycle: "(r::64 word) AND l = 0 \<Longrightarrow> ((r OR l) AND NOT w) AND NOT l = r AND NOT w"
  by (auto simp add: bit_eq_iff bit_simps)

lemma lock_kept: "(l::64 word) AND w = 0 \<Longrightarrow> ((r OR l) AND NOT w) AND l = l"
  by (auto simp add: bit_eq_iff bit_simps)

lemma wait_head_update_same: "m_wait_head r = p \<Longrightarrow> r\<lparr>m_wait_head := p\<rparr> = r"
  by (cases r) simp

lemma wait_context_update_order:
  "r\<lparr>m_ref_count := x, m_wait_head := p\<rparr> = r\<lparr>m_wait_head := p, m_ref_count := x\<rparr>"
  by (cases r) simp

lemma notify_waiters_quiet:
  assumes q: "interference s = []" and f: "ref_count this s AND lock_flag c = 0"
    and ok: "flags_ok c"
    and ch: "chain (wait_nodes (world s)) (wait_head this s) ns"
  shows "notify_waiters c this s = Some (Inr
     (s\<lparr>world := (world s)\<lparr>wait_contexts := (wait_contexts (world s))
          (this := (wait_contexts (world s) this)
             \<lparr>m_ref_count := ref_count this s AND NOT (waiter_flag c), m_wait_head := nullptr\<rparr>)\<rparr>,
        trace := trace s @ [Lock_acquired this] @ map Node_notified ns @
                 (if ns = [] then [] else [Wait_head_written this nullptr]) @
                 [Waiter_flag_cleared this, Lock_released this]\<rparr>))"
proof -
  let ?s1 = "log (Lock_acquired this) (set_ref_count this (ref_count this s OR lock_flag c) s)"
  have l: "lock c this s = Some ?s1" by (rule lock_quiet[OF q f])
  have h1: "wait_head this ?s1 = wait_head this s"
    by (simp add: wait_head_def log_def set_ref_count_def)
  have c1: "chain (wait_nodes (world ?s1)) (wait_head this s) ns"
    using ch by (simp add: log_def set_ref_count_def)
  have lk: "((ref_count this s OR lock_flag c) AND NOT (waiter_flag c)) AND lock_flag c \<noteq> 0"
    using ok by (simp add: lock_kept flags_ok_def)
  show ?thesis
  proof (cases "ns = []")
    case True
    with ch have "wait_head this s = nullptr" by simp
    then show ?thesis
      using True q lk f
      unfolding notify_waiters_def l
      by (simp add: h1)
         (simp add: wait_head_def log_def set_ref_count_def atomic_load_def atomic_store_def
          other_threads_def unlock_def is_locked_def fetch_and_def ref_count_def Let_def lock_cycle
          wait_head_update_same wait_context_update_order)
  next
    case False
    with ch have nz: "wait_head this s \<noteq> nullptr" by (cases ns) auto
    show ?thesis
      using False q lk f nz
      unfolding notify_waiters_def l
      by (simp add: h1 notify_all_chain[OF c1])
         (simp add: wait_head_def log_def set_ref_count_def atomic_load_def atomic_store_def
          set_wait_head_def wait_context_update_order
          other_threads_def unlock_def is_locked_def fetch_and_def ref_count_def Let_def lock_cycle)
  qed
qed

lemma sample_chain: "chain (wait_nodes (world sample_state)) (wait_head 1 sample_state) [5, 6]"
  by (simp add: sample_state_def sample_world_def wait_head_def)

lemma flags_ok_sample: "flags_ok sample_config"
  by (simp add: flags_ok_def sample_config_def)

lemma sample_notify_waiters:
  "notify_waiters sample_config 1 sample_state = Some (Inr notified_state)"
proof -
  have q: "interference sample_state = []" by (simp add: sample_state_def)
  have f: "ref_count 1 sample_state AND lock_flag sample_config = 0"
    by (simp add: sample_state_def sample_world_def ref_count_def sample_config_def)
  show ?thesis
    unfolding notify_waiters_quiet[OF q f flags_ok_sample sample_chain]
    by (simp add: sample_state_def sample_world_def sample_config_def notified_state_def ref_count_def)
qed

lemma notify_waiters_shape:
  assumes "notify_waiters c this s = Some (Inr s')"
  shows "\<exists>ns. chain (wait_nodes (world s)) (wait_head this s) ns \<and>
           trace s' = trace s @ [Lock_acquired this] @ map Node_notified ns @
                      (if ns = [] then [] else [Wait_head_written this nullptr]) @
                      [Waiter_flag_cleared this, Lock_released this] \<and>
           wait_head this s' = nullptr \<and>
           ref_count this s' AND lock_flag c = 0 \<and>
           (interference s = [] \<and> ref_count this s AND lock_flag c = 0 \<and> flags_ok c \<longrightarrow>
              ref_count this s' = ref_count this s AND NOT (waiter_flag c))"
proof -
  from assms obtain s1 s2 r s3 where
    l: "lock c this s = Some s1"
    and n: "(if wait_head this s1 \<noteq> nullptr
         then map_option (set_wait_head this nullptr) (notify_all (wait_head this s1) this s1)
         else Some s1) = Some s2"
    and al: "atomic_load this s2 = (r, s3)"
    and u: "unlock c this (log (Waiter_flag_cleared this)
       (atomic_store this (r AND NOT (waiter_flag c)) s3)) = Inr s'"
    by (rule notify_waiters_parts)
  note l1 = lock_result[OF l]
  from l1 have h1: "wait_head this s1 = wait_head this s"
    and n1: "wait_nodes (world s1) = wait_nodes (world s)"
    by (auto simp: wait_head_counter_changed counter_changed_nodes)
  have "\<exists>ns. chain (wait_nodes (world s)) (wait_head this s) ns \<and>
          trace s2 = trace s1 @ map Node_notified ns @
                     (if ns = [] then [] else [Wait_head_written this nullptr])"
  proof (cases "wait_head this s1 = nullptr")
    case True
    with n h1 show ?thesis by (intro exI[of _ "[]"]) simp
  next
    case False
    with n obtain s1' where na: "notify_all (wait_head this s1) this s1 = Some s1'"
      and s2: "s2 = set_wait_head this nullptr s1'" by auto
    from notify_all_result[OF na] obtain ns where
      c: "chain (wait_nodes (world s1)) (wait_head this s1) ns"
      and s1': "s1' = s1\<lparr>trace := trace s1 @ map Node_notified ns\<rparr>" by blast
    from c False have "ns \<noteq> []" by (cases ns) auto
    with c s1' s2 h1 n1 show ?thesis
      by (intro exI[of _ ns]) (simp add: set_wait_head_def)
  qed
  then obtain ns where c: "chain (wait_nodes (world s)) (wait_head this s) ns"
    and t2: "trace s2 = trace s1 @ map Node_notified ns @
                     (if ns = [] then [] else [Wait_head_written this nullptr])" by blast
  have t': "trace s' = trace s2 @ [Waiter_flag_cleared this, Lock_released this]"
    using atomic_load_frame[OF al] atomic_store_frame[of this "r AND NOT (waiter_flag c)" s3]
      unlock_frame[OF u]
    by (simp add: log_def)
  have q: "interference s = [] \<and> ref_count this s AND lock_flag c = 0 \<and> flags_ok c \<longrightarrow>
              ref_count this s' = ref_count this s AND NOT (waiter_flag c)"
  proof (intro impI, elim conjE)
    assume "interference s = []" "ref_count this s AND lock_flag c = 0" "flags_ok c"
    from notify_waiters_quiet[OF this c] assms show
      "ref_count this s' = ref_count this s AND NOT (waiter_flag c)"
      by (auto simp: ref_count_def)
  qed
  from c t2 t' l1 notify_waiters_result[OF assms] q show ?thesis
    by (intro exI[of _ ns]) simp
qed

section \<open>Notification of the waiters\<close>

text \<open>
  Claim C5, as the claim states it: \<^verbatim>\<open>notify_waiters\<close> triggers the resumption of the
  collected nodes only after it has released the lock. On the sample wait context with
  its two registered nodes the call notifies both nodes first and releases the lock last.
\<close>

theorem notify_waiters_before_release_counterexample:
  "notify_waiters sample_config 1 sample_state = Some (Inr notified_state) \<and>
   \<not> notified_after_release 1 False (trace notified_state)"
  using sample_notify_waiters by (simp add: notified_state_def)

text \<open>
  Claim C5, amended. Every call of \<^verbatim>\<open>notify_waiters\<close> that returns has acquired the
  lock, then notified every node reachable from \<^verbatim>\<open>m_wait_head\<close> through the links (in
  list order, by the one call of \<^verbatim>\<open>notify_all\<close>, the lock still held), then reset
  \<^verbatim>\<open>m_wait_head\<close> to \<^verbatim>\<open>nullptr\<close> (when it was not), then cleared the waiter flag, and
  released the lock last. Afterwards the list is empty and the lock flag is clear; when no
  other thread touches the counter during the call, the counter is the one at entry
  without the waiter flag.
\<close>

theorem notify_waiters_notifies_under_lock:
  assumes "notify_waiters c this s = Some (Inr s')"
  shows "\<exists>ns. chain (wait_nodes (world s)) (wait_head this s) ns \<and>
           trace s' = trace s @ [Lock_acquired this] @ map Node_notified ns @
                      (if ns = [] then [] else [Wait_head_written this nullptr]) @
                      [Waiter_flag_cleared this, Lock_released this] \<and>
           wait_head this s' = nullptr \<and>
           ref_count this s' AND lock_flag c = 0 \<and>
           (interference s = [] \<and> ref_count this s AND lock_flag c = 0 \<and> flags_ok c \<longrightarrow>
              ref_count this s' = ref_count this s AND NOT (waiter_flag c))"
  using assms by (rule notify_waiters_shape)

text \<open>The sample wait context satisfies the hypothesis: its two nodes are notified.\<close>

theorem notify_waiters_notifies_under_lock_witness:
  "notify_waiters sample_config 1 sample_state = Some (Inr notified_state) \<and>
   trace notified_state = [Lock_acquired 1, Node_notified 5, Node_notified 6,
     Wait_head_written 1 nullptr, Waiter_flag_cleared 1, Lock_released 1] \<and>
   wait_head 1 notified_state = nullptr \<and>
   ref_count 1 notified_state AND lock_flag sample_config = 0 \<and>
   ref_count 1 notified_state AND waiter_flag sample_config = 0"
proof -
  from notify_waiters_notifies_under_lock[OF sample_notify_waiters]
  have "wait_head 1 notified_state = nullptr \<and>
        ref_count 1 notified_state AND lock_flag sample_config = 0" by blast
  with sample_notify_waiters show ?thesis
    by (simp add: notified_state_def ref_count_def sample_config_def)
qed

text \<open>
  Claim C7. Once \<^verbatim>\<open>notify_waiters\<close> has returned, \<^verbatim>\<open>unregister_waiter\<close> on any
  node (with the other threads quiet) returns without an assertion failure and leaves
  the whole store as it was: it takes and releases the lock and does nothing else, so no
  node is notified again, nothing is unlinked, and \<^verbatim>\<open>m_wait_head\<close> stays empty.
\<close>

theorem unregister_after_notify_is_no_op:
  assumes "lock_flag c \<noteq> 0"
    and "notify_waiters c this s = Some (Inr s1)"
    and "interference s1 = []"
  shows "unregister_waiter c k this n s1 =
           Some (Inr (s1\<lparr>trace := trace s1 @ [Lock_acquired this, Lock_released this]\<rparr>))
         \<and> wait_head this s1 = nullptr"
proof -
  note r = notify_waiters_result[OF assms(2)]
  from r have lk: "lock c this s1 = Some (log (Lock_acquired this)
        (set_ref_count this (ref_count this s1 OR lock_flag c) s1))"
    by (simp add: lock_quiet[OF assms(3)])
  have w: "world (set_ref_count this (ref_count this s1) s1) = world s1"
    by (simp add: set_ref_count_same)
  show ?thesis
    using r assms(1,3) w
    by (simp add: unregister_waiter_def lk Let_def wait_head_def log_def unlock_def is_locked_def
        atomic_load_def other_threads_quiet fetch_and_def or_and_not set_ref_count_def ref_count_def)
qed

text \<open>On the sample state: unregistering node 5 after the notification changes nothing.\<close>

theorem unregister_after_notify_is_no_op_witness:
  "lock_flag sample_config \<noteq> 0 \<and>
   notify_waiters sample_config 1 sample_state = Some (Inr notified_state) \<and>
   interference notified_state = [] \<and>
   unregister_waiter sample_config sample_collaborators 1 5 notified_state =
     Some (Inr (notified_state\<lparr>trace := trace notified_state @ [Lock_acquired 1, Lock_released 1]\<rparr>)) \<and>
   wait_head 1 notified_state = nullptr"
proof -
  have a: "lock_flag sample_config \<noteq> 0" by (simp add: sample_config_def)
  have b: "interference notified_state = []" by (simp add: notified_state_def)
  from unregister_after_notify_is_no_op[OF a sample_notify_waiters b, of sample_collaborators 5]
    a b sample_notify_waiters
  show ?thesis by simp
qed

section \<open>The entry point checks the protocol version\<close>

text \<open>
  Claim C10. \<^verbatim>\<open>r1::notify_waiters\<close> on a wait context whose
  \<^verbatim>\<open>m_version_and_traits\<close> is 0 fails the assertion of its first line; on one whose
  \<^verbatim>\<open>m_version_and_traits\<close> is positive it is \<^verbatim>\<open>wait_context::notify_waiters\<close>.
\<close>

theorem r1_notify_waiters_needs_current_protocol:
  "(m_version_and_traits (wait_contexts (world s) wc) = 0 \<longrightarrow>
      r1_notify_waiters c wc s = Some (Inl (Assertion_failed ''wc.m_version_and_traits > 0''))) \<and>
   (m_version_and_traits (wait_contexts (world s) wc) > 0 \<longrightarrow>
      r1_notify_waiters c wc s = notify_waiters c wc s)"
  by (simp add: r1_notify_waiters_def)

text \<open>Both cases occur: the legacy sample state and the sample state.\<close>

theorem r1_notify_waiters_needs_current_protocol_witness:
  "m_version_and_traits (wait_contexts (world legacy_state) 1) = 0 \<and>
   r1_notify_waiters sample_config 1 legacy_state =
     Some (Inl (Assertion_failed ''wc.m_version_and_traits > 0'')) \<and>
   m_version_and_traits (wait_contexts (world sample_state) 1) > 0 \<and>
   r1_notify_waiters sample_config 1 sample_state = notify_waiters sample_config 1 sample_state"
proof -
  have l: "m_version_and_traits (wait_contexts (world legacy_state) 1) = 0"
    by (simp add: legacy_state_def sample_state_def sample_world_def)
  have c: "m_version_and_traits (wait_contexts (world sample_state) 1) > 0"
    by (simp add: sample_state_def sample_world_def)
  from r1_notify_waiters_needs_current_protocol
         [of legacy_state 1 sample_config, THEN conjunct1, THEN mp, OF l]
       r1_notify_waiters_needs_current_protocol
         [of sample_state 1 sample_config, THEN conjunct2, THEN mp, OF c]
       l c
  show ?thesis by simp
qed

section \<open>The entry point \<^verbatim>\<open>r1::resume\<close>\<close>

lemma pushes_append [simp]: "pushes (xs @ ys) = pushes xs @ pushes ys"
  by (induction xs rule: pushes.induct) auto

lemma executed_actions_append [simp]:
  "executed_actions (xs @ ys) = executed_actions xs @ executed_actions ys"
  by (induction xs rule: executed_actions.induct) auto

lemma r1_resume_result:
  assumes "r1_resume c k sp s = Inr s'"
  shows "sp \<noteq> nullptr \<and> m_arena (suspend_points (world s) sp) \<noteq> nullptr \<and>
    m_thread_data (task_dispatchers (world s)
       (m_target (m_resume_task (suspend_points (world s) sp)))) = nullptr \<and>
    trace s' = trace s @ Resume_called sp #
      (if critical_task_allowed (task_dispatchers (world s)
            (m_target (m_resume_task (suspend_points (world s) sp))))
       then [Task_pushed False (fst (random_lane_selector k (m_random (suspend_points (world s) sp)))) sp]
       else if preview_critical_tasks c
       then [Task_pushed True (fst (random_lane_selector k (m_random (suspend_points (world s) sp)))) sp]
       else []) @
      [New_work_advertised (m_arena (suspend_points (world s) sp))] \<and>
    interference s' = interference s \<and>
    wait_contexts (world s') = wait_contexts (world s) \<and>
    thread_datas (world s') = thread_datas (world s) \<and>
    task_dispatchers (world s') = task_dispatchers (world s) \<and>
    arena_slots (world s') = arena_slots (world s) \<and>
    atomic_bools (world s') = atomic_bools (world s)"
  using assms
  by (auto simp: r1_resume_def Let_def log_def update_arena_def push_task_def
      update_suspend_point_def on_thread_leaving_def split: if_splits prod.splits)

lemma r1_resume_streams:
  assumes "r1_resume c k sp s = Inr s'"
  shows "arenas (world s') = (arenas (world s))
     (m_arena (suspend_points (world s) sp) :=
        (arenas (world s) (m_arena (suspend_points (world s) sp)))
          \<lparr>my_resume_task_stream :=
             my_resume_task_stream (arenas (world s) (m_arena (suspend_points (world s) sp))) @
             (if critical_task_allowed (task_dispatchers (world s)
                   (m_target (m_resume_task (suspend_points (world s) sp))))
              then [(fst (random_lane_selector k (m_random (suspend_points (world s) sp))), sp)]
              else []),
           my_critical_task_stream :=
             my_critical_task_stream (arenas (world s) (m_arena (suspend_points (world s) sp))) @
             (if \<not> critical_task_allowed (task_dispatchers (world s)
                   (m_target (m_resume_task (suspend_points (world s) sp))))
                 \<and> preview_critical_tasks c
              then [(fst (random_lane_selector k (m_random (suspend_points (world s) sp))), sp)]
              else [])\<rparr>)"
  using assms
  by (auto simp: r1_resume_def Let_def log_def update_arena_def push_task_def
      update_suspend_point_def on_thread_leaving_def fun_eq_iff split: if_splits prod.splits)

lemma sample_r1_resume:
  "r1_resume sample_config sample_collaborators 2 sample_state =
     Inr (resumed_state False sample_state)"
  by (simp add: r1_resume_def sample_config_def sample_collaborators_def sample_state_def
      sample_world_def resumed_state_def Let_def log_def update_arena_def push_task_def
      update_suspend_point_def on_thread_leaving_def)

lemma sample_r1_resume_critical:
  "r1_resume sample_config sample_collaborators 2 mid_critical_state =
     Inr (resumed_state True mid_critical_state)"
  by (simp add: r1_resume_def sample_config_def sample_collaborators_def sample_state_def
      mid_critical_state_def
      sample_world_def resumed_state_def Let_def log_def update_arena_def push_task_def
      update_suspend_point_def on_thread_leaving_def)

lemma r1_resume_returns:
  assumes "sp \<noteq> nullptr" and "m_arena (suspend_points (world s) sp) \<noteq> nullptr"
    and "m_thread_data (task_dispatchers (world s)
           (m_target (m_resume_task (suspend_points (world s) sp)))) = nullptr"
  shows "\<exists>s'. r1_resume c k sp s = Inr s'"
  using assms
  by (simp add: r1_resume_def Let_def log_def split: prod.splits)

text \<open>
  Claim C6. The target dispatcher can be in the middle of a critical task only in a build
  with \<^verbatim>\<open>__TBB_PREVIEW_CRITICAL_TASKS\<close>: the two branches of the function are commented
  ``the target is not in the process of executing critical task'' and ``the target is in
  the process of executing critical task''. So either the macro is set or the target has
  \<^verbatim>\<open>critical_task_allowed\<close>. Then every call of \<^verbatim>\<open>r1::resume\<close> that meets the
  assertions of the function returns, and it has pushed the suspend point's resume task,
  with the lane drawn by \<^verbatim>\<open>random_lane_selector\<close> from the suspend point's random
  state, exactly once and into exactly one stream of the suspend point's arena: the
  critical stream when the target has not \<^verbatim>\<open>critical_task_allowed\<close>, the stream of
  resume tasks otherwise. The other stream and the other arenas are untouched.
\<close>

theorem r1_resume_pushes_once:
  assumes "preview_critical_tasks c \<or>
           critical_task_allowed (task_dispatchers (world s)
             (m_target (m_resume_task (suspend_points (world s) sp))))"
    and "sp \<noteq> nullptr" and "m_arena (suspend_points (world s) sp) \<noteq> nullptr"
    and "m_thread_data (task_dispatchers (world s)
           (m_target (m_resume_task (suspend_points (world s) sp)))) = nullptr"
  shows "\<exists>s'. r1_resume c k sp s = Inr s' \<and>
        (let a = m_arena (suspend_points (world s) sp);
             allowed = critical_task_allowed (task_dispatchers (world s)
                         (m_target (m_resume_task (suspend_points (world s) sp))));
             lane = fst (random_lane_selector k (m_random (suspend_points (world s) sp)))
         in pushes (trace s') = pushes (trace s) @ [(\<not> allowed, lane, sp)] \<and>
            my_resume_task_stream (arenas (world s') a) =
              my_resume_task_stream (arenas (world s) a) @ (if allowed then [(lane, sp)] else []) \<and>
            my_critical_task_stream (arenas (world s') a) =
              my_critical_task_stream (arenas (world s) a) @ (if allowed then [] else [(lane, sp)]) \<and>
            (\<forall>b. b \<noteq> a \<longrightarrow> arenas (world s') b = arenas (world s) b))"
proof -
  from r1_resume_returns[OF assms(2-4)] obtain s' where r: "r1_resume c k sp s = Inr s'" by blast
  from r1_resume_result[OF r] r1_resume_streams[OF r] assms(1) r show ?thesis
    by (intro exI[of _ s']) (auto simp: Let_def)
qed

text \<open>
  Both cases on the sample states: one push each, into the stream of resume tasks for the
  sample state and into the critical stream for the target suspended in a critical task.
\<close>

theorem r1_resume_pushes_once_witness:
  "r1_resume sample_config sample_collaborators 2 sample_state =
     Inr (resumed_state False sample_state) \<and>
   critical_task_allowed (task_dispatchers (world sample_state) 4) \<and>
   pushes (trace (resumed_state False sample_state)) = [(False, 3, 2)] \<and>
   my_resume_task_stream (arenas (world (resumed_state False sample_state)) 3) = [(3, 2)] \<and>
   my_critical_task_stream (arenas (world (resumed_state False sample_state)) 3) = [] \<and>
   r1_resume sample_config sample_collaborators 2 mid_critical_state =
     Inr (resumed_state True mid_critical_state) \<and>
   \<not> critical_task_allowed (task_dispatchers (world mid_critical_state) 4) \<and>
   preview_critical_tasks sample_config \<and>
   pushes (trace (resumed_state True mid_critical_state)) = [(True, 3, 2)] \<and>
   my_critical_task_stream (arenas (world (resumed_state True mid_critical_state)) 3) = [(3, 2)] \<and>
   my_resume_task_stream (arenas (world (resumed_state True mid_critical_state)) 3) = []"
proof -
  have a: "preview_critical_tasks sample_config" by (simp add: sample_config_def)
  have "(2::nat) \<noteq> nullptr" by simp
  moreover have "m_arena (suspend_points (world sample_state) 2) \<noteq> nullptr"
    "m_arena (suspend_points (world mid_critical_state) 2) \<noteq> nullptr"
    "m_thread_data (task_dispatchers (world sample_state)
           (m_target (m_resume_task (suspend_points (world sample_state) 2)))) = nullptr"
    "m_thread_data (task_dispatchers (world mid_critical_state)
           (m_target (m_resume_task (suspend_points (world mid_critical_state) 2)))) = nullptr"
    by (simp_all add: sample_state_def mid_critical_state_def sample_world_def)
  ultimately show ?thesis
    using r1_resume_pushes_once[of sample_config sample_state 2 sample_collaborators]
      r1_resume_pushes_once[of sample_config mid_critical_state 2 sample_collaborators]
      sample_r1_resume sample_r1_resume_critical a
    by (simp add: Let_def sample_state_def sample_world_def sample_collaborators_def
      mid_critical_state_def resumed_state_def)
qed

section \<open>The post-resume action\<close>

lemma resume_calls_append [simp]: "resume_calls (xs @ ys) = resume_calls xs @ resume_calls ys"
  by (induction xs rule: resume_calls.induct) auto

lemma resume_trace_facts [simp]:
  "resume_calls (resume_trace c k sp s) = [sp]"
  "executed_actions (resume_trace c k sp s) = []"
  "head_writes_locked held (resume_trace c k sp s @ es) = head_writes_locked held es"
  by (simp_all add: resume_trace_def)

lemma r1_resume_trace:
  "r1_resume c k sp s = Inr s' \<Longrightarrow> trace s' = trace s @ resume_trace c k sp s"
  using r1_resume_result[of c k sp s s'] by (simp add: resume_trace_def)

lemma compare_exchange_strong_frame:
  "compare_exchange_strong this e d s = (ok, e', s1) \<Longrightarrow>
     trace s1 = trace s \<and> counter_changed this (world s) (world s1)"
  using other_threads_frame[of this s]
  by (auto simp: compare_exchange_strong_def Let_def split: if_splits intro: counter_changed_trans)

lemma continue_execution_frame:
  "continue_execution c this s = (b, s1) \<Longrightarrow>
     trace s1 = trace s \<and> counter_changed this (world s) (world s1)"
  using other_threads_frame[of this s]
  by (auto simp: continue_execution_def atomic_load_def Let_def)

lemma publish_loop_frame:
  "publish_loop c this e s = Inr (e', s') \<Longrightarrow>
     trace s' = trace s \<and> counter_changed this (world s) (world s')"
proof (induction c this e s rule: publish_loop.induct)
  case (1 c this expected s)
  obtain cont s1 where ce: "continue_execution c this s = (cont, s1)" by fastforce
  obtain ok e2 s2 where cas:
    "compare_exchange_strong this expected (expected OR waiter_flag c) s1 = (ok, e2, s2)"
    by (metis prod_cases3)
  note f1 = continue_execution_frame[OF ce] and f2 = compare_exchange_strong_frame[OF cas]
  show ?case
  proof (cases "expected AND waiter_flag c \<noteq> 0")
    case True
    with "1.prems" show ?thesis by (simp add: publish_loop.simps[of c this expected s])
  next
    case nf: False
    show ?thesis
    proof (cases cont)
      case False
      with "1.prems" nf ce f1 show ?thesis
        by (simp add: publish_loop.simps[of c this expected s])
    next
      case True
      show ?thesis
      proof (cases ok)
        case okT: True
        with "1.prems" nf ce cas True f1 f2 show ?thesis
          by (auto simp: publish_loop.simps[of c this expected s] split: if_splits
              intro: counter_changed_trans)
      next
        case okF: False
        with "1.prems" nf ce cas True have "publish_loop c this e2 s2 = Inr (e', s')"
          by (simp add: publish_loop.simps[of c this expected s])
        from "1.IH"[OF nf ce[symmetric] _ cas[symmetric] _ _ this] True okF f1 f2
        show ?thesis by (auto intro: counter_changed_trans)
      qed
    qed
  qed
qed

lemma publish_wait_list_frame:
  assumes "publish_wait_list c this s = Inr (b, s')"
  shows "trace s' = trace s \<and> counter_changed this (world s) (world s')"
proof -
  obtain e s1 where al: "atomic_load this s = (e, s1)" by fastforce
  obtain l s2 where il: "is_locked c this s1 = (l, s2)" by fastforce
  from assms al il obtain e' where pl: "publish_loop c this e s2 = Inr (e', s')"
    by (auto simp: publish_wait_list_def split: if_splits sum.splits)
  from atomic_load_frame[OF al] is_locked_frame[OF il] publish_loop_frame[OF pl]
  show ?thesis by (auto intro: counter_changed_trans)
qed

text \<open>What the register_waiter case adds to the trace.\<close>

lemma register_waiter_action_legacy:
  assumes "register_waiter_action c k arg s = Inr s'"
    and "m_version_and_traits (wait_contexts (world s) (wo (register_waiter_datas (world s) arg))) = 0"
  shows "\<exists>published s1.
           publish_wait_list c (wo (register_waiter_datas (world s) arg))
             (set_wait_head (wo (register_waiter_datas (world s) arg))
                (my_suspend_point (wait_nodes (world s) (node (register_waiter_datas (world s) arg)))) s)
             = Inr (published, s1) \<and>
           trace s' = trace s @
             Wait_head_written (wo (register_waiter_datas (world s) arg))
               (my_suspend_point (wait_nodes (world s) (node (register_waiter_datas (world s) arg)))) #
             (if published then []
              else resume_trace c k
                     (my_suspend_point (wait_nodes (world s) (node (register_waiter_datas (world s) arg))))
                     s1)"
proof -
  let ?d = "register_waiter_datas (world s) arg"
  let ?sp = "my_suspend_point (wait_nodes (world s) (node ?d))"
  let ?s0 = "set_wait_head (wo ?d) ?sp s"
  from assms obtain r where p: "publish_wait_list c (wo ?d) ?s0 = Inr r"
    by (auto simp: register_waiter_action_def Let_def split: sum.splits)
  obtain b s1 where r: "r = (b, s1)" by (cases r)
  note f = publish_wait_list_frame[OF p[unfolded r]]
  have n: "wait_nodes (world s1) = wait_nodes (world s)"
    using counter_changed_nodes[OF conjunct2[OF f]] by (simp add: set_wait_head_def)
  have t1: "trace s1 = trace s @ [Wait_head_written (wo ?d) ?sp]"
    using f by (simp add: set_wait_head_def)
  show ?thesis
  proof (cases b)
    case True
    with assms p r have "s' = s1" by (simp add: register_waiter_action_def Let_def)
    with p r t1 True show ?thesis by (intro exI[of _ True] exI[of _ s1]) simp
  next
    case False
    with assms p r n have "r1_resume c k ?sp s1 = Inr s'"
      by (simp add: register_waiter_action_def Let_def)
    from r1_resume_trace[OF this] p r t1 False show ?thesis
      by (intro exI[of _ False] exI[of _ s1]) simp
  qed
qed

lemma register_waiter_action_current:
  assumes "register_waiter_action c k arg s = Inr s'"
    and "m_version_and_traits (wait_contexts (world s) (wo (register_waiter_datas (world s) arg))) \<noteq> 0"
  shows "let d = register_waiter_datas (world s) arg;
             r = try_register_waiter k (wo d) (node d) (world s)
         in trace s' = trace s @
              (if fst r then []
               else resume_trace c k (my_suspend_point (wait_nodes (snd r) (node d)))
                      (s\<lparr>world := snd r\<rparr>))"
proof -
  let ?d = "register_waiter_datas (world s) arg"
  obtain b w where r: "try_register_waiter k (wo ?d) (node ?d) (world s) = (b, w)" by fastforce
  show ?thesis
  proof (cases b)
    case True
    with assms r have "s' = s\<lparr>world := w\<rparr>" by (simp add: register_waiter_action_def Let_def)
    with r True show ?thesis by (simp add: Let_def)
  next
    case False
    with assms r have "r1_resume c k (my_suspend_point (wait_nodes w (node ?d))) (s\<lparr>world := w\<rparr>) = Inr s'"
      by (simp add: register_waiter_action_def Let_def)
    from r1_resume_trace[OF this] r False show ?thesis by (simp add: Let_def)
  qed
qed

lemma register_waiter_action_executes_nothing:
  assumes "register_waiter_action c k arg s = Inr s'"
  shows "\<exists>tr. trace s' = trace s @ tr \<and> executed_actions tr = []"
proof (cases "m_version_and_traits (wait_contexts (world s) (wo (register_waiter_datas (world s) arg))) = 0")
  case True
  from register_waiter_action_legacy[OF assms True] show ?thesis by auto
next
  case False
  from register_waiter_action_current[OF assms False] show ?thesis by (auto simp: Let_def)
qed

lemma do_post_resume_action_parts:
  assumes "do_post_resume_action c k td s = Inr s'"
  obtains s1 where
    "my_post_resume_action (thread_datas (world s) td) \<noteq> none"
    "my_post_resume_arg (thread_datas (world s) td) \<noteq> nullptr"
    "s' = update_thread_data td
            (\<lambda>t. t\<lparr>my_post_resume_action := none, my_post_resume_arg := nullptr\<rparr>) s1"
    "\<exists>tr. trace s1 = trace s @
        Action_executed (my_post_resume_action (thread_datas (world s) td))
          (my_post_resume_arg (thread_datas (world s) td)) # tr \<and> executed_actions tr = []"
    "my_post_resume_action (thread_datas (world s) td) = register_waiter \<Longrightarrow>
       register_waiter_action c k (my_post_resume_arg (thread_datas (world s) td))
         (log (Action_executed register_waiter (my_post_resume_arg (thread_datas (world s) td))) s)
       = Inr s1"
proof -
  let ?act = "my_post_resume_action (thread_datas (world s) td)"
  let ?arg = "my_post_resume_arg (thread_datas (world s) td)"
  from assms have a: "?act \<noteq> none" and b: "?arg \<noteq> nullptr"
    by (auto simp: do_post_resume_action_def Let_def split: if_splits)
  show ?thesis
  proof (cases ?act)
    case register_waiter
    with assms a b obtain s1 where
      r: "register_waiter_action c k ?arg (log (Action_executed register_waiter ?arg) s) = Inr s1"
      and s': "s' = update_thread_data td
            (\<lambda>t. t\<lparr>my_post_resume_action := none, my_post_resume_arg := nullptr\<rparr>) s1"
      by (auto simp: do_post_resume_action_def Let_def split: sum.splits)
    from register_waiter_action_executes_nothing[OF r] register_waiter
    have "\<exists>tr. trace s1 = trace s @ Action_executed ?act ?arg # tr \<and> executed_actions tr = []"
      by (auto simp: log_def)
    with a b s' r show ?thesis by (intro that[of s1]) auto
  next
    case callback
    with assms a b show ?thesis
      by (intro that[of "log (Callback_invoked
              (suspend_callback (callback_wrappers (world s) ?arg))
              (user_callback (callback_wrappers (world s) ?arg))
              (tag (callback_wrappers (world s) ?arg)))
            ((log (Action_executed callback ?arg) s)\<lparr>world :=
               invoke_callback k (callback_wrappers (world s) ?arg)
                 (world (log (Action_executed callback ?arg) s))\<rparr>)"])
        (auto simp: do_post_resume_action_def Let_def log_def)
  next
    case cleanup
    with assms a b show ?thesis
      by (intro that[of "update_arena (my_arena (thread_datas (world s) td))
              (\<lambda>ar. ar\<lparr>my_co_cache := ?arg # my_co_cache ar\<rparr>)
              (on_thread_leaving c (my_arena (thread_datas (world s) td))
                 (log (Action_executed cleanup ?arg) s))"])
        (auto simp: do_post_resume_action_def Let_def log_def update_arena_def on_thread_leaving_def)
  next
    case notify
    with assms a b show ?thesis
      by (intro that[of "store_flag ?arg True Release (log (Action_executed notify ?arg) s)"])
        (auto simp: do_post_resume_action_def Let_def log_def store_flag_def)
  next
    case none
    with a show ?thesis by simp
  qed
qed

lemma sample_register_legacy:
  "do_post_resume_action sample_config sample_collaborators 30
     (set_post_resume_action 30 register_waiter 7 legacy_state) = Inr legacy_resumed_state"
  by (simp add: do_post_resume_action_def register_waiter_action_def set_post_resume_action_def
      update_thread_data_def legacy_state_def sample_state_def sample_world_def Let_def log_def
      set_wait_head_def publish_wait_list_def atomic_load_def other_threads_def is_locked_def
      ref_count_def publish_loop.simps continue_execution_def work_count_def sample_config_def
      r1_resume_def sample_collaborators_def update_arena_def push_task_def
      update_suspend_point_def on_thread_leaving_def legacy_resumed_state_def fun_upd_twist)

lemma sample_register_current:
  "do_post_resume_action sample_config sample_collaborators 30
     (set_post_resume_action 30 register_waiter 7 sample_state) = Inr current_resumed_state"
  by (simp add: do_post_resume_action_def register_waiter_action_def set_post_resume_action_def
      update_thread_data_def sample_state_def sample_world_def Let_def log_def
      sample_config_def
      r1_resume_def sample_collaborators_def update_arena_def push_task_def
      update_suspend_point_def on_thread_leaving_def current_resumed_state_def)

lemma update_thread_data_frame [simp]:
  "trace (update_thread_data td f s) = trace s"
  "wait_contexts (world (update_thread_data td f s)) = wait_contexts (world s)"
  "interference (update_thread_data td f s) = interference s"
  by (simp_all add: update_thread_data_def)




lemma do_post_resume_action_effect:
  assumes "do_post_resume_action c k td s = Inr s'"
  shows "\<exists>s4. s' = update_thread_data td
            (\<lambda>t. t\<lparr>my_post_resume_action := none, my_post_resume_arg := nullptr\<rparr>) s4 \<and>
     (let act = my_post_resume_action (thread_datas (world s) td);
          arg = my_post_resume_arg (thread_datas (world s) td);
          a = my_arena (thread_datas (world s) td);
          cb = callback_wrappers (world s) arg;
          s0 = log (Action_executed act arg) s
      in (act = register_waiter \<longrightarrow> register_waiter_action c k arg s0 = Inr s4) \<and>
         (act = callback \<longrightarrow>
            s4 = log (Callback_invoked (suspend_callback cb) (user_callback cb) (tag cb))
                   (s0\<lparr>world := invoke_callback k cb (world s)\<rparr>)) \<and>
         (act = cleanup \<longrightarrow>
            s4 = update_arena a (\<lambda>ar. ar\<lparr>my_co_cache := arg # my_co_cache ar\<rparr>)
                   (on_thread_leaving c a s0)) \<and>
         (act = notify \<longrightarrow> s4 = store_flag arg True Release s0))"
proof (cases "my_post_resume_action (thread_datas (world s) td)")
  case register_waiter
  with assms show ?thesis
    by (auto simp: do_post_resume_action_def Let_def split: if_splits sum.splits)
next
  case callback
  with assms show ?thesis
    by (auto simp: do_post_resume_action_def Let_def log_def split: if_splits)
next
  case cleanup
  with assms show ?thesis
    by (auto simp: do_post_resume_action_def Let_def split: if_splits)
next
  case notify
  with assms show ?thesis
    by (auto simp: do_post_resume_action_def Let_def split: if_splits)
next
  case none
  with assms show ?thesis
    by (auto simp: do_post_resume_action_def Let_def split: if_splits)
qed

section \<open>\<^verbatim>\<open>task_dispatcher::resume\<close>\<close>

lemma resume_parts:
  assumes "resume c k this target s = Inr s'"
  obtains s1 s3 where
    "resume_before_switch this target s = Inr s1"
    "m_thread_data (task_dispatchers (world (context_switch k this target s1)) this) \<noteq> nullptr"
    "do_post_resume_action c k
       (m_thread_data (task_dispatchers (world (context_switch k this target s1)) this))
       (context_switch k this target s1) = Inr s3"
    "s' = (if this = my_default_task_dispatcher (arena_slots (world s3)
                (my_arena_slot (thread_datas (world s3)
                   (m_thread_data (task_dispatchers (world (context_switch k this target s1)) this)))))
           then store_flag (m_is_owner_recalled (suspend_points (world s3) (get_suspend_point this s3)))
                  False Relaxed s3
           else s3)"
proof -
  from assms obtain s1 where b: "resume_before_switch this target s = Inr s1"
    by (auto simp: resume_def split: sum.splits)
  let ?s2 = "context_switch k this target s1"
  let ?td = "m_thread_data (task_dispatchers (world ?s2) this)"
  from assms b have a: "resume_after_switch c k this ?s2 = Inr s'"
    by (auto simp: resume_def split: if_splits)
  then have td: "?td \<noteq> nullptr"
    by (auto simp: resume_after_switch_def Let_def split: if_splits)
  from a obtain s3 where d: "do_post_resume_action c k ?td ?s2 = Inr s3"
    by (auto simp: resume_after_switch_def Let_def split: if_splits sum.splits)
  from a d have "s' = (if this = my_default_task_dispatcher (arena_slots (world s3)
                (my_arena_slot (thread_datas (world s3) ?td)))
           then store_flag (m_is_owner_recalled (suspend_points (world s3) (get_suspend_point this s3)))
                  False Relaxed s3
           else s3)"
    by (auto simp: resume_after_switch_def Let_def split: if_splits)
  with b td d show ?thesis by (rule that)
qed

lemma resume_before_switch_result:
  assumes "resume_before_switch this target s = Inr s1"
  shows "trace s1 = trace s \<and>
     my_post_resume_action (thread_datas (world s)
        (m_thread_data (task_dispatchers (world s) this))) \<noteq> none \<and>
     my_post_resume_arg (thread_datas (world s)
        (m_thread_data (task_dispatchers (world s) this))) \<noteq> nullptr \<and>
     target \<noteq> this"
  using assms
  by (auto simp: resume_before_switch_def Let_def attach_task_dispatcher_def
      detach_task_dispatcher_def update_thread_data_def update_dispatcher_def split: if_splits)

lemma store_flag_frame [simp]:
  "trace (store_flag a b mo s) = trace s @ [Flag_stored a b mo]"
  "thread_datas (world (store_flag a b mo s)) = thread_datas (world s)"
  "atomic_bools (world (store_flag a b mo s)) = (atomic_bools (world s))(a := b)"
  by (simp_all add: store_flag_def log_def)

lemma sample_resume_home:
  "resume sample_config sample_collaborators 9 4
     (set_post_resume_action 30 notify 11 sample_state) = Inr back_home_state"
  by (simp add: resume_def resume_before_switch_def resume_after_switch_def context_switch_def
      do_post_resume_action_def set_post_resume_action_def attach_task_dispatcher_def
      detach_task_dispatcher_def update_thread_data_def update_dispatcher_def
      get_suspend_point_def sample_state_def sample_world_def sample_collaborators_def
      sample_switch_back_def sample_config_def Let_def log_def update_arena_def
      on_thread_leaving_def store_flag_def back_home_state_def fun_upd_idem_iff fun_upd_twist)

lemma sample_resume_away:
  "resume sample_config sample_collaborators 4 9
     (set_post_resume_action 30 callback 13 away_state) = Inr back_away_state"
  by (simp add: resume_def resume_before_switch_def resume_after_switch_def context_switch_def
      do_post_resume_action_def set_post_resume_action_def attach_task_dispatcher_def
      detach_task_dispatcher_def update_thread_data_def update_dispatcher_def
      get_suspend_point_def sample_state_def sample_world_def sample_collaborators_def
      sample_switch_back_def sample_config_def Let_def log_def update_arena_def
      on_thread_leaving_def store_flag_def back_away_state_def away_state_def
      fun_upd_idem_iff fun_upd_twist)

lemma sample_resume_round_trip:
  "resume sample_config round_trip_collaborators 9 4
     (set_post_resume_action 30 notify 11 sample_state) = Inr back_home_state"
  by (simp add: resume_def resume_before_switch_def resume_after_switch_def context_switch_def
      do_post_resume_action_def set_post_resume_action_def attach_task_dispatcher_def
      detach_task_dispatcher_def update_thread_data_def update_dispatcher_def
      get_suspend_point_def sample_state_def sample_world_def sample_collaborators_def
      round_trip_collaborators_def sample_round_trip_def
      sample_switch_back_def sample_config_def Let_def log_def update_arena_def
      on_thread_leaving_def store_flag_def back_home_state_def fun_upd_idem_iff fun_upd_twist)


text \<open>
  Claim C2, as the claim states it: the action that is pending when
  \<^verbatim>\<open>task_dispatcher::resume\<close> is called is the one executed after the context switch
  has returned. The function reads \<^verbatim>\<open>m_thread_data\<close> again after the switch (``pay
  attention that \<^verbatim>\<open>m_thread_data\<close> can be changed after resume'') and executes what is
  pending there. On the sample state thread 30, on dispatcher 9, has the action
  \<^verbatim>\<open>notify\<close> with argument 11 pending at the call; the target's context consumes
  it during the switch, and what this call executes once control is back is the cleanup of
  dispatcher 4, the action set by the context that switched back.
\<close>

theorem resume_runs_another_action_counterexample:
  "m_thread_data (task_dispatchers
      (world (set_post_resume_action 30 notify 11 sample_state)) 9) = 30 \<and>
   my_post_resume_action (thread_datas
      (world (set_post_resume_action 30 notify 11 sample_state)) 30) = notify \<and>
   my_post_resume_arg (thread_datas
      (world (set_post_resume_action 30 notify 11 sample_state)) 30) = 11 \<and>
   resume sample_config round_trip_collaborators 9 4
     (set_post_resume_action 30 notify 11 sample_state) = Inr back_home_state \<and>
   trace (set_post_resume_action 30 notify 11 sample_state) = [] \<and>
   trace back_home_state =
     [Context_switched 9 4, Action_executed cleanup 4, Flag_stored 11 False Relaxed] \<and>
   executed_actions (trace back_home_state) = [(cleanup, 4)] \<and>
   executed_actions (trace back_home_state) \<noteq> [(notify, 11)]"
  using sample_resume_round_trip
  by (simp add: set_post_resume_action_def update_thread_data_def sample_state_def
      sample_world_def back_home_state_def)

text \<open>
  Claim C2, amended. A call of \<^verbatim>\<open>task_dispatcher::resume\<close> that returns has passed the
  checks of its first block: an action with a non-null argument was pending at the call.
  Once the context switch has returned it has executed exactly one post-resume action: the
  one pending, with its non-null argument, in the thread data this dispatcher is attached
  to at that moment. Executed means the effect of the action has taken place:
  \<^verbatim>\<open>register_waiter\<close> has run the registration, \<^verbatim>\<open>callback\<close> has invoked the
  callback of the wrapper, \<^verbatim>\<open>cleanup\<close> has released the arena reference and put the
  dispatcher into the coroutine cache, \<^verbatim>\<open>notify\<close> has stored \<^verbatim>\<open>true\<close> to the flag
  with \<^verbatim>\<open>memory_order_release\<close>. Then the thread data has got the action
  \<^verbatim>\<open>none\<close> and the argument \<^verbatim>\<open>nullptr\<close>, and nothing follows but the store to
  the recall flag on the default dispatcher, so that running
  \<^verbatim>\<open>do_post_resume_action\<close> again fails its first assertion instead of repeating the
  action.
\<close>

theorem resume_runs_action_pending_at_return:
  assumes "resume c k this target s = Inr s'"
  shows "\<exists>s1 s4. resume_before_switch this target s = Inr s1 \<and>
     my_post_resume_action (thread_datas (world s)
        (m_thread_data (task_dispatchers (world s) this))) \<noteq> none \<and>
     my_post_resume_arg (thread_datas (world s)
        (m_thread_data (task_dispatchers (world s) this))) \<noteq> nullptr \<and>
     (let s2 = context_switch k this target s1;
          td = m_thread_data (task_dispatchers (world s2) this);
          act = my_post_resume_action (thread_datas (world s2) td);
          arg = my_post_resume_arg (thread_datas (world s2) td);
          a = my_arena (thread_datas (world s2) td);
          cb = callback_wrappers (world s2) arg;
          s0 = log (Action_executed act arg) s2;
          s3 = update_thread_data td
                 (\<lambda>t. t\<lparr>my_post_resume_action := none, my_post_resume_arg := nullptr\<rparr>) s4
      in act \<noteq> none \<and> arg \<noteq> nullptr \<and>
         (act = register_waiter \<longrightarrow> register_waiter_action c k arg s0 = Inr s4) \<and>
         (act = callback \<longrightarrow>
            s4 = log (Callback_invoked (suspend_callback cb) (user_callback cb) (tag cb))
                   (s0\<lparr>world := invoke_callback k cb (world s2)\<rparr>)) \<and>
         (act = cleanup \<longrightarrow>
            s4 = update_arena a (\<lambda>ar. ar\<lparr>my_co_cache := arg # my_co_cache ar\<rparr>)
                   (on_thread_leaving c a s0)) \<and>
         (act = notify \<longrightarrow> s4 = store_flag arg True Release s0) \<and>
         (s' = s3 \<or>
          s' = store_flag (m_is_owner_recalled (suspend_points (world s3)
                 (get_suspend_point this s3))) False Relaxed s3) \<and>
         executed_actions (trace s') = executed_actions (trace s) @ [(act, arg)] \<and>
         my_post_resume_action (thread_datas (world s') td) = none \<and>
         my_post_resume_arg (thread_datas (world s') td) = nullptr \<and>
         do_post_resume_action c k td s' =
           Inl (Assertion_failed ''The post resume action must be set''))"
proof -
  from assms obtain s1 s3 where
    b: "resume_before_switch this target s = Inr s1"
    and d: "do_post_resume_action c k
       (m_thread_data (task_dispatchers (world (context_switch k this target s1)) this))
       (context_switch k this target s1) = Inr s3"
    and s': "s' = (if this = my_default_task_dispatcher (arena_slots (world s3)
                (my_arena_slot (thread_datas (world s3)
                   (m_thread_data (task_dispatchers (world (context_switch k this target s1)) this)))))
           then store_flag (m_is_owner_recalled (suspend_points (world s3) (get_suspend_point this s3)))
                  False Relaxed s3
           else s3)"
    by (rule resume_parts)
  let ?s2 = "context_switch k this target s1"
  let ?td = "m_thread_data (task_dispatchers (world ?s2) this)"
  let ?act = "my_post_resume_action (thread_datas (world ?s2) ?td)"
  let ?arg = "my_post_resume_arg (thread_datas (world ?s2) ?td)"
  have t2: "trace ?s2 = trace s @ [Context_switched this target]"
    using resume_before_switch_result[OF b] by (simp add: context_switch_def log_def)
  from d obtain s5 tr where
    a: "?act \<noteq> none" and g: "?arg \<noteq> nullptr"
    and s35: "s3 = update_thread_data ?td
            (\<lambda>t. t\<lparr>my_post_resume_action := none, my_post_resume_arg := nullptr\<rparr>) s5"
    and t5: "trace s5 = trace ?s2 @ Action_executed ?act ?arg # tr"
    and e: "executed_actions tr = []"
    by (elim do_post_resume_action_parts) blast
  from do_post_resume_action_effect[OF d] obtain s4 where
    s3: "s3 = update_thread_data ?td
            (\<lambda>t. t\<lparr>my_post_resume_action := none, my_post_resume_arg := nullptr\<rparr>) s4"
    and eff: "let act = ?act; arg = ?arg;
          a = my_arena (thread_datas (world ?s2) ?td);
          cb = callback_wrappers (world ?s2) arg;
          s0 = log (Action_executed act arg) ?s2
      in (act = register_waiter \<longrightarrow> register_waiter_action c k arg s0 = Inr s4) \<and>
         (act = callback \<longrightarrow>
            s4 = log (Callback_invoked (suspend_callback cb) (user_callback cb) (tag cb))
                   (s0\<lparr>world := invoke_callback k cb (world ?s2)\<rparr>)) \<and>
         (act = cleanup \<longrightarrow>
            s4 = update_arena a (\<lambda>ar. ar\<lparr>my_co_cache := arg # my_co_cache ar\<rparr>)
                   (on_thread_leaving c a s0)) \<and>
         (act = notify \<longrightarrow> s4 = store_flag arg True Release s0)"
    by blast
  have td': "thread_datas (world s') ?td =
      (thread_datas (world s5) ?td)\<lparr>my_post_resume_action := none, my_post_resume_arg := nullptr\<rparr>"
    using s' s35 by (simp add: update_thread_data_def)
  have ex: "executed_actions (trace s') = executed_actions (trace s) @ [(?act, ?arg)]"
    using s' s35 t5 t2 e by simp
  have again: "do_post_resume_action c k ?td s' =
           Inl (Assertion_failed ''The post resume action must be set'')"
    using td' by (simp add: do_post_resume_action_def)
  have fin: "s' = s3 \<or>
          s' = store_flag (m_is_owner_recalled (suspend_points (world s3)
                 (get_suspend_point this s3))) False Relaxed s3"
    using s' by (simp split: if_splits)
  from b a g ex td' again eff fin resume_before_switch_result[OF b] show ?thesis
    unfolding s3
    by (intro exI[of _ s1] exI[of _ s4]) (simp add: Let_def)
qed

text \<open>
  On the sample state: dispatcher 9 resumes dispatcher 4; when control is back the pending
  action is the cleanup of dispatcher 4, which is executed once, with its effect on the
  arena, and cleared.
\<close>

theorem resume_runs_action_pending_at_return_witness:
  "resume sample_config round_trip_collaborators 9 4
     (set_post_resume_action 30 notify 11 sample_state) = Inr back_home_state \<and>
   executed_actions (trace back_home_state) = [(cleanup, 4)] \<and>
   my_co_cache (arenas (world back_home_state) 3) = [4] \<and>
   my_references (arenas (world back_home_state) 3) = 0 \<and>
   my_post_resume_action (thread_datas (world back_home_state) 30) = none \<and>
   my_post_resume_arg (thread_datas (world back_home_state) 30) = nullptr \<and>
   do_post_resume_action sample_config round_trip_collaborators 30 back_home_state =
     Inl (Assertion_failed ''The post resume action must be set'')"
proof -
  let ?s = "set_post_resume_action 30 notify 11 sample_state"
  let ?s1 = "attach_task_dispatcher 30 4 (detach_task_dispatcher 30 ?s)"
  let ?s2 = "context_switch round_trip_collaborators 9 4 ?s1"
  have b: "resume_before_switch 9 4 ?s = Inr ?s1"
    by (simp add: resume_before_switch_def set_post_resume_action_def update_thread_data_def
        sample_state_def sample_world_def Let_def)
  have td: "m_thread_data (task_dispatchers (world ?s2) 9) = 30"
    and act: "my_post_resume_action (thread_datas (world ?s2) 30) = cleanup"
    and arg: "my_post_resume_arg (thread_datas (world ?s2) 30) = 4"
    and ar: "my_arena (thread_datas (world ?s2) 30) = 3"
    by (simp_all add: context_switch_def attach_task_dispatcher_def detach_task_dispatcher_def
      set_post_resume_action_def update_thread_data_def update_dispatcher_def
      resume_after_switch_def do_post_resume_action_def store_flag_def
      get_suspend_point_def sample_state_def sample_world_def sample_collaborators_def
      round_trip_collaborators_def sample_round_trip_def
      sample_switch_back_def Let_def log_def)
  from resume_runs_action_pending_at_return[OF sample_resume_round_trip] b td act arg ar
  have "executed_actions (trace back_home_state) = executed_actions (trace ?s) @ [(cleanup, 4)] \<and>
     my_post_resume_action (thread_datas (world back_home_state) 30) = none \<and>
     my_post_resume_arg (thread_datas (world back_home_state) 30) = nullptr \<and>
     do_post_resume_action sample_config round_trip_collaborators 30 back_home_state =
       Inl (Assertion_failed ''The post resume action must be set'')"
    by (simp add: Let_def)
  with sample_resume_round_trip show ?thesis
    by (simp add: back_home_state_def set_post_resume_action_def update_thread_data_def
        sample_state_def sample_world_def)
qed

text \<open>
  Claim C9. In a call of \<^verbatim>\<open>task_dispatcher::resume\<close> that returns, after the
  post-resume action has run: if this dispatcher is the default dispatcher of the thread's
  arena slot, the only further effect is the store of \<^verbatim>\<open>false\<close>, with
  \<^verbatim>\<open>memory_order_relaxed\<close>, to the \<^verbatim>\<open>m_is_owner_recalled\<close> flag of its suspend point;
  otherwise nothing further happens, so the flag is as the action left it.
\<close>

theorem resume_clears_recall_flag_at_home:
  assumes "resume c k this target s = Inr s'"
  shows "\<exists>s1 s3. resume_before_switch this target s = Inr s1 \<and>
     (let s2 = context_switch k this target s1;
          td = m_thread_data (task_dispatchers (world s2) this);
          flag = m_is_owner_recalled (suspend_points (world s3) (get_suspend_point this s3))
      in do_post_resume_action c k td s2 = Inr s3 \<and>
         (this = my_default_task_dispatcher (arena_slots (world s3)
                    (my_arena_slot (thread_datas (world s3) td))) \<longrightarrow>
            s' = store_flag flag False Relaxed s3 \<and>
            trace s' = trace s3 @ [Flag_stored flag False Relaxed] \<and>
            atomic_bools (world s') = (atomic_bools (world s3))(flag := False)) \<and>
         (this \<noteq> my_default_task_dispatcher (arena_slots (world s3)
                    (my_arena_slot (thread_datas (world s3) td))) \<longrightarrow>
            s' = s3))"
proof -
  from assms obtain s1 s3 where
    b: "resume_before_switch this target s = Inr s1"
    and d: "do_post_resume_action c k
       (m_thread_data (task_dispatchers (world (context_switch k this target s1)) this))
       (context_switch k this target s1) = Inr s3"
    and s': "s' = (if this = my_default_task_dispatcher (arena_slots (world s3)
                (my_arena_slot (thread_datas (world s3)
                   (m_thread_data (task_dispatchers (world (context_switch k this target s1)) this)))))
           then store_flag (m_is_owner_recalled (suspend_points (world s3) (get_suspend_point this s3)))
                  False Relaxed s3
           else s3)"
    by (rule resume_parts)
  from b d s' show ?thesis
    by (intro exI[of _ s1] exI[of _ s3]) (simp add: Let_def)
qed

text \<open>
  Both cases on the sample states: back on the default dispatcher 9 the flag (cell 11) is
  stored \<^verbatim>\<open>false\<close>; back on dispatcher 4 it stays as the \<^verbatim>\<open>notify\<close> action set it.
\<close>

theorem resume_clears_recall_flag_at_home_witness:
  "resume sample_config sample_collaborators 9 4
     (set_post_resume_action 30 notify 11 sample_state) = Inr back_home_state \<and>
   my_default_task_dispatcher (arena_slots (world back_home_state) 8) = 9 \<and>
   atomic_bools (world back_home_state) 11 = False \<and>
   trace back_home_state =
     [Context_switched 9 4, Action_executed cleanup 4, Flag_stored 11 False Relaxed] \<and>
   resume sample_config sample_collaborators 4 9
     (set_post_resume_action 30 callback 13 away_state) = Inr back_away_state \<and>
   my_default_task_dispatcher (arena_slots (world back_away_state) 8) \<noteq> 4 \<and>
   atomic_bools (world back_away_state) 11 = True \<and>
   trace back_away_state =
     [Context_switched 4 9, Action_executed notify 11, Flag_stored 11 True Release]"
  using resume_clears_recall_flag_at_home[OF sample_resume_home]
    resume_clears_recall_flag_at_home[OF sample_resume_away]
    sample_resume_home sample_resume_away
  by (simp add: back_home_state_def back_away_state_def away_state_def sample_state_def
      sample_world_def)

section \<open>\<^verbatim>\<open>task_dispatcher::suspend\<close>\<close>

lemma allocations_append [simp]: "allocations (xs @ ys) = allocations xs @ allocations ys"
  by (induction xs rule: allocations.induct) auto

lemma allocations_resume_trace [simp]: "allocations (resume_trace c k sp s) = []"
  by (simp add: resume_trace_def)

lemma register_waiter_action_allocates_nothing:
  assumes "register_waiter_action c k arg s = Inr s'"
  shows "\<exists>tr. trace s' = trace s @ tr \<and> allocations tr = []"
proof (cases "m_version_and_traits (wait_contexts (world s) (wo (register_waiter_datas (world s) arg))) = 0")
  case True
  from register_waiter_action_legacy[OF assms True] show ?thesis by auto
next
  case False
  from register_waiter_action_current[OF assms False] show ?thesis by (auto simp: Let_def)
qed

lemma do_post_resume_action_allocates_nothing:
  assumes "do_post_resume_action c k td s = Inr s'"
  shows "\<exists>tr. trace s' = trace s @ tr \<and> allocations tr = []"
proof -
  let ?act = "my_post_resume_action (thread_datas (world s) td)"
  let ?arg = "my_post_resume_arg (thread_datas (world s) td)"
  from assms have a: "?act \<noteq> none" and b: "?arg \<noteq> nullptr"
    by (auto simp: do_post_resume_action_def Let_def split: if_splits)
  show ?thesis
  proof (cases ?act)
    case register_waiter
    with assms a b obtain s1 where
      r: "register_waiter_action c k ?arg (log (Action_executed register_waiter ?arg) s) = Inr s1"
      and s': "s' = update_thread_data td
            (\<lambda>t. t\<lparr>my_post_resume_action := none, my_post_resume_arg := nullptr\<rparr>) s1"
      by (auto simp: do_post_resume_action_def Let_def split: sum.splits)
    from register_waiter_action_allocates_nothing[OF r] s' show ?thesis
      by (auto simp: log_def)
  next
    case callback
    with assms a b show ?thesis
      by (auto simp: do_post_resume_action_def Let_def log_def)
  next
    case cleanup
    with assms a b show ?thesis
      by (auto simp: do_post_resume_action_def Let_def log_def update_arena_def on_thread_leaving_def)
  next
    case notify
    with assms a b show ?thesis
      by (auto simp: do_post_resume_action_def Let_def log_def store_flag_def)
  next
    case none
    with a show ?thesis by simp
  qed
qed

lemma resume_trace_shape:
  assumes "resume c k this target s = Inr s'"
  shows "\<exists>tr. trace s' = trace s @ Context_switched this target # tr \<and> allocations tr = []"
proof -
  from assms obtain s1 s3 where
    b: "resume_before_switch this target s = Inr s1"
    and d: "do_post_resume_action c k
       (m_thread_data (task_dispatchers (world (context_switch k this target s1)) this))
       (context_switch k this target s1) = Inr s3"
    and s': "s' = (if this = my_default_task_dispatcher (arena_slots (world s3)
                (my_arena_slot (thread_datas (world s3)
                   (m_thread_data (task_dispatchers (world (context_switch k this target s1)) this)))))
           then store_flag (m_is_owner_recalled (suspend_points (world s3) (get_suspend_point this s3)))
                  False Relaxed s3
           else s3)"
    by (rule resume_parts)
  have t2: "trace (context_switch k this target s1) = trace s @ [Context_switched this target]"
    using resume_before_switch_result[OF b] by (simp add: context_switch_def log_def)
  from do_post_resume_action_allocates_nothing[OF d] t2 s' show ?thesis by auto
qed

lemma create_coroutine_cached:
  assumes "my_co_cache (arenas (world s) (my_arena (thread_datas (world s) td))) = d # ds"
    and "d \<noteq> nullptr"
  shows "create_coroutine c td s =
    (d, update_arena (my_arena (thread_datas (world s) td))
          (\<lambda>ar. ar\<lparr>my_co_cache := ds, my_references := my_references ar + ref_external c\<rparr>) s)"
  using assms
  by (simp add: create_coroutine_def co_cache_pop_def Let_def update_arena_def)

lemma create_coroutine_fresh:
  assumes "my_co_cache (arenas (world s) (my_arena (thread_datas (world s) td))) = []"
    and "next_address (world s) \<noteq> nullptr"
  shows "fst (create_coroutine c td s) = next_address (world s) \<and>
    trace (snd (create_coroutine c td s)) = trace s @
      [Dispatcher_allocated (next_address (world s)),
       Suspend_point_initialized (next_address (world s)) (next_address (world s) + 1)] \<and>
    task_dispatchers (world (snd (create_coroutine c td s))) (next_address (world s)) =
      \<lparr>m_thread_data = nullptr, m_suspend_point = next_address (world s) + 1,
       critical_task_allowed = True, outermost = True\<rparr> \<and>
    m_arena (suspend_points (world (snd (create_coroutine c td s))) (next_address (world s) + 1)) =
      my_arena (thread_datas (world s) td) \<and>
    m_target (m_resume_task (suspend_points (world (snd (create_coroutine c td s)))
      (next_address (world s) + 1))) = next_address (world s) \<and>
    \<not> atomic_bools (world (snd (create_coroutine c td s)))
        (m_is_owner_recalled (suspend_points (world (snd (create_coroutine c td s)))
           (next_address (world s) + 1)))"
  using assms
  by (simp add: create_coroutine_def co_cache_pop_def Let_def update_arena_def
      new_task_dispatcher_def allocate_def init_suspend_point_def update_dispatcher_def
      update_suspend_point_def log_def)

lemma trace_suspend_callback_state [simp]:
  "trace (suspend_callback_state td this scb ucb s1) = trace s1"
  by (simp add: suspend_callback_state_def set_post_resume_action_def update_thread_data_def
      allocate_def)

lemma suspend_parts:
  assumes "suspend c k this scb ucb s = Inr s'"
  obtains target s1 s5 where
    "(if atomic_bools (world s)
          (m_is_owner_recalled (suspend_points (world s)
             (get_suspend_point (my_default_task_dispatcher (arena_slots (world s)
                (my_arena_slot (thread_datas (world s)
                   (m_thread_data (task_dispatchers (world s) this)))))) s)))
      then (my_default_task_dispatcher (arena_slots (world s)
                (my_arena_slot (thread_datas (world s)
                   (m_thread_data (task_dispatchers (world s) this))))), s)
      else create_coroutine c (m_thread_data (task_dispatchers (world s) this)) s) = (target, s1)"
    "resume c k this target
       (suspend_callback_state (m_thread_data (task_dispatchers (world s) this)) this scb ucb s1)
       = Inr s5"
    "trace s' = trace s5 @
       (if outermost (task_dispatchers (world s5) this) then [Recall_point_reached this] else [])"
proof -
  let ?td = "m_thread_data (task_dispatchers (world s) this)"
  let ?pick = "(if atomic_bools (world s)
          (m_is_owner_recalled (suspend_points (world s)
             (get_suspend_point (my_default_task_dispatcher (arena_slots (world s)
                (my_arena_slot (thread_datas (world s) ?td)))) s)))
      then (my_default_task_dispatcher (arena_slots (world s)
                (my_arena_slot (thread_datas (world s) ?td))), s)
      else create_coroutine c ?td s)"
  obtain target s1 where p: "?pick = (target, s1)" by fastforce
  from assms have ok: "scb \<noteq> nullptr" "ucb \<noteq> nullptr" "?td \<noteq> nullptr"
    "my_arena_slot (thread_datas (world s) ?td) \<noteq> nullptr"
    by (auto simp: suspend_def Let_def split: if_splits)
  from assms ok p obtain s5 where
    r: "resume c k this target (suspend_callback_state ?td this scb ucb s1) = Inr s5"
    and s': "s' = (if outermost (task_dispatchers (world s5) this)
                   then log (Recall_point_reached this) (s5\<lparr>world := recall_point k this (world s5)\<rparr>)
                   else s5)"
    by (auto simp: suspend_def Let_def suspend_callback_state_def allocate_def
        split: if_splits sum.splits prod.splits)
  from s' have "trace s' = trace s5 @
       (if outermost (task_dispatchers (world s5) this) then [Recall_point_reached this] else [])"
    by (simp add: log_def)
  with p r show ?thesis by (rule that)
qed

lemmas suspend_eval_defs =
  suspend_def create_coroutine_def co_cache_pop_def new_task_dispatcher_def allocate_def
  init_suspend_point_def
  resume_def resume_before_switch_def resume_after_switch_def context_switch_def
  do_post_resume_action_def set_post_resume_action_def attach_task_dispatcher_def
  detach_task_dispatcher_def update_thread_data_def update_dispatcher_def update_suspend_point_def
  get_suspend_point_def sample_state_def sample_world_def sample_collaborators_def
  sample_switch_back_def sample_config_def Let_def log_def update_arena_def
  on_thread_leaving_def store_flag_def away_state_def

lemma sample_suspend_recalled:
  "suspend sample_config sample_collaborators 4 40 41 recalled_state = Inr suspended_recalled_state"
  by (simp add: suspend_eval_defs recalled_state_def suspended_recalled_state_def
      fun_upd_idem fun_upd_idem_iff fun_upd_twist)

lemma sample_suspend_cached:
  "suspend sample_config sample_collaborators 9 40 41 cached_state = Inr suspended_cached_state"
  by (simp add: suspend_eval_defs cached_state_def suspended_cached_state_def
      fun_upd_idem fun_upd_idem_iff fun_upd_twist)

lemma sample_suspend_fresh:
  "suspend sample_config sample_collaborators 9 40 41 sample_state = Inr suspended_fresh_state"
  by (simp add: suspend_eval_defs suspended_fresh_state_def
      fun_upd_idem fun_upd_idem_iff fun_upd_twist)

text \<open>
  Claim C4. In a call of \<^verbatim>\<open>task_dispatcher::suspend\<close> that returns: if the recall flag
  of the default dispatcher's suspend point is read true, the context switch goes to the
  default dispatcher and the call allocates no dispatcher; otherwise the switch goes to
  the dispatcher \<^verbatim>\<open>create_coroutine\<close> gives, which is the one popped from the coroutine
  cache when the cache is not empty (nothing is allocated), and a newly allocated
  dispatcher with an initialized suspend point when the cache is empty. (A cache holds no
  \<^verbatim>\<open>nullptr\<close>, and a fresh address is not \<^verbatim>\<open>nullptr\<close>.)
\<close>

theorem suspend_picks_target:
  assumes "suspend c k this scb ucb s = Inr s'"
  shows "let td = m_thread_data (task_dispatchers (world s) this);
             default_disp = my_default_task_dispatcher (arena_slots (world s)
                              (my_arena_slot (thread_datas (world s) td)));
             recalled = atomic_bools (world s)
                          (m_is_owner_recalled (suspend_points (world s)
                             (get_suspend_point default_disp s)));
             a = my_arena (thread_datas (world s) td);
             fresh = next_address (world s)
         in \<exists>tr. allocations tr = [] \<and>
              (recalled \<longrightarrow>
                 trace s' = trace s @ Context_switched this default_disp # tr \<and>
                 allocations (trace s') = allocations (trace s)) \<and>
              (\<not> recalled \<longrightarrow>
                 (case my_co_cache (arenas (world s) a) of
                    d # ds \<Rightarrow>
                      d \<noteq> nullptr \<longrightarrow>
                        trace s' = trace s @ Context_switched this d # tr \<and>
                        allocations (trace s') = allocations (trace s) \<and>
                        create_coroutine c td s =
                          (d, update_arena a
                                (\<lambda>ar. ar\<lparr>my_co_cache := ds,
                                          my_references := my_references ar + ref_external c\<rparr>) s)
                  | [] \<Rightarrow>
                      fresh \<noteq> nullptr \<longrightarrow>
                        trace s' = trace s @
                          [Dispatcher_allocated fresh, Suspend_point_initialized fresh (fresh + 1),
                           Context_switched this fresh] @ tr \<and>
                        allocations (trace s') = allocations (trace s) @ [fresh] \<and>
                        fst (create_coroutine c td s) = fresh \<and>
                        task_dispatchers (world (snd (create_coroutine c td s))) fresh =
                          \<lparr>m_thread_data = nullptr, m_suspend_point = fresh + 1,
                           critical_task_allowed = True, outermost = True\<rparr>))"
proof -
  let ?td = "m_thread_data (task_dispatchers (world s) this)"
  let ?a = "my_arena (thread_datas (world s) ?td)"
  from assms obtain target s1 s5 where
    p: "(if atomic_bools (world s)
          (m_is_owner_recalled (suspend_points (world s)
             (get_suspend_point (my_default_task_dispatcher (arena_slots (world s)
                (my_arena_slot (thread_datas (world s) ?td)))) s)))
      then (my_default_task_dispatcher (arena_slots (world s)
                (my_arena_slot (thread_datas (world s) ?td))), s)
      else create_coroutine c ?td s) = (target, s1)"
    and r: "resume c k this target (suspend_callback_state ?td this scb ucb s1) = Inr s5"
    and t': "trace s' = trace s5 @
       (if outermost (task_dispatchers (world s5) this) then [Recall_point_reached this] else [])"
    by (rule suspend_parts)
  from resume_trace_shape[OF r] obtain tr where
    t5: "trace s5 = trace s1 @ Context_switched this target # tr" and al: "allocations tr = []"
    by auto
  let ?tr = "tr @ (if outermost (task_dispatchers (world s5) this)
                   then [Recall_point_reached this] else [])"
  have al': "allocations ?tr = []" using al by simp
  have ts: "trace s' = trace s1 @ Context_switched this target # ?tr" using t' t5 by simp
  show ?thesis
  proof (cases "atomic_bools (world s)
          (m_is_owner_recalled (suspend_points (world s)
             (get_suspend_point (my_default_task_dispatcher (arena_slots (world s)
                (my_arena_slot (thread_datas (world s) ?td)))) s)))")
    case True
    with p ts al' show ?thesis
      unfolding Let_def by (intro exI[of _ ?tr]) auto
  next
    case False
    with p have cc: "create_coroutine c ?td s = (target, s1)" by simp
    show ?thesis
    proof (cases "my_co_cache (arenas (world s) ?a)")
      case Nil
      show ?thesis
      proof (cases "next_address (world s) = nullptr")
        case True
        with False Nil al' show ?thesis
          unfolding Let_def by (intro exI[of _ ?tr]) simp
      next
        case nz: False
        from create_coroutine_fresh[OF Nil nz, of c] cc ts False Nil al' show ?thesis
          unfolding Let_def by (intro exI[of _ ?tr]) simp
      qed
    next
      case (Cons d ds)
      show ?thesis
      proof (cases "d = nullptr")
        case True
        with False Cons al' show ?thesis
          unfolding Let_def by (intro exI[of _ ?tr]) simp
      next
        case nz: False
        from create_coroutine_cached[OF Cons nz, of c] cc ts False Cons al' show ?thesis
          unfolding Let_def by (intro exI[of _ ?tr]) (auto simp: update_arena_def)
      qed
    qed
  qed
qed

text \<open>
  The three cases on the sample states: recalled (the switch goes from dispatcher 4 to the
  default dispatcher 9), cached (from 9 to the cached dispatcher 4) and fresh (from 9 to
  the new dispatcher 100).
\<close>

theorem suspend_picks_target_witness:
  "suspend sample_config sample_collaborators 4 40 41 recalled_state = Inr suspended_recalled_state \<and>
   trace suspended_recalled_state =
     [Context_switched 4 9, Action_executed notify 11, Flag_stored 11 True Release] \<and>
   allocations (trace suspended_recalled_state) = [] \<and>
   suspend sample_config sample_collaborators 9 40 41 cached_state = Inr suspended_cached_state \<and>
   trace suspended_cached_state =
     [Context_switched 9 4, Action_executed cleanup 4, Flag_stored 11 False Relaxed,
      Recall_point_reached 9] \<and>
   allocations (trace suspended_cached_state) = [] \<and>
   suspend sample_config sample_collaborators 9 40 41 sample_state = Inr suspended_fresh_state \<and>
   trace suspended_fresh_state =
     [Dispatcher_allocated 100, Suspend_point_initialized 100 101, Context_switched 9 100,
      Action_executed cleanup 100, Flag_stored 11 False Relaxed, Recall_point_reached 9] \<and>
   allocations (trace suspended_fresh_state) = [100]"
  using suspend_picks_target[OF sample_suspend_recalled]
    suspend_picks_target[OF sample_suspend_cached]
    suspend_picks_target[OF sample_suspend_fresh]
    sample_suspend_recalled sample_suspend_cached sample_suspend_fresh
  by (simp add: suspended_recalled_state_def suspended_cached_state_def
      suspended_fresh_state_def)

section \<open>Writes of \<^verbatim>\<open>m_wait_head\<close> and the lock\<close>

lemma head_writes_append [simp]: "head_writes (xs @ ys) = head_writes xs @ head_writes ys"
  by (induction xs rule: head_writes.induct) auto

lemma head_writes_resume_trace [simp]: "head_writes (resume_trace c k sp s) = []"
  by (simp add: resume_trace_def)

lemma head_writes_locked_notified [simp]:
  "head_writes_locked held (map Node_notified ns @ es) = head_writes_locked held es"
  by (induction ns) auto

lemma unregister_waiter_locked:
  assumes "unregister_waiter c k this n s = Some (Inr s')"
  shows "\<exists>tr. trace s' = trace s @ tr \<and> head_writes_locked [] tr"
proof -
  from assms obtain s1 where l: "lock c this s = Some s1"
    by (auto simp: unregister_waiter_def split: option.splits)
  let ?s2 = "(if wait_head this s1 \<noteq> nullptr then
               let s' = (if wait_head this s1 = n
                         then set_wait_head this (my_next (wait_nodes (world s1) n)) s1
                         else s1)
               in log (Node_unlinked n) (s'\<lparr>world := unlink k n (world s')\<rparr>)
             else s1)"
  from assms l have u: "unlock c this ?s2 = Inr s'"
    by (simp add: unregister_waiter_def Let_def)
  have t2: "trace ?s2 = trace s1 @
     (if wait_head this s1 \<noteq> nullptr
      then (if wait_head this s1 = n
            then [Wait_head_written this (my_next (wait_nodes (world s1) n))] else []) @
           [Node_unlinked n]
      else [])"
    by (simp add: Let_def log_def set_wait_head_def)
  from lock_result[OF l] unlock_frame[OF u] t2
  have "trace s' = trace s @ Lock_acquired this #
     (if wait_head this s1 \<noteq> nullptr
      then (if wait_head this s1 = n
            then [Wait_head_written this (my_next (wait_nodes (world s1) n))] else []) @
           [Node_unlinked n]
      else []) @ [Lock_released this]"
    by simp
  then show ?thesis by (intro exI[of _ "Lock_acquired this #
     (if wait_head this s1 \<noteq> nullptr
      then (if wait_head this s1 = n
            then [Wait_head_written this (my_next (wait_nodes (world s1) n))] else []) @
           [Node_unlinked n]
      else []) @ [Lock_released this]"]) simp
qed

lemma notify_waiters_locked:
  assumes "notify_waiters c this s = Some (Inr s')"
  shows "\<exists>tr. trace s' = trace s @ tr \<and> head_writes_locked [] tr"
proof -
  from notify_waiters_shape[OF assms] obtain ns where
    "trace s' = trace s @ [Lock_acquired this] @ map Node_notified ns @
                      (if ns = [] then [] else [Wait_head_written this nullptr]) @
                      [Waiter_flag_cleared this, Lock_released this]" by blast
  then show ?thesis
    by (intro exI[of _ "[Lock_acquired this] @ map Node_notified ns @
                      (if ns = [] then [] else [Wait_head_written this nullptr]) @
                      [Waiter_flag_cleared this, Lock_released this]"]) simp
qed

lemma register_waiter_head_writes:
  assumes "my_post_resume_action (thread_datas (world s) td) = register_waiter"
    and "do_post_resume_action c k td s = Inr s'"
  shows "\<exists>tr. trace s' = trace s @ tr \<and>
     (if m_version_and_traits (wait_contexts (world s)
           (wo (register_waiter_datas (world s) (my_post_resume_arg (thread_datas (world s) td))))) = 0
      then head_writes tr =
             [(wo (register_waiter_datas (world s) (my_post_resume_arg (thread_datas (world s) td))),
               my_suspend_point (wait_nodes (world s)
                 (node (register_waiter_datas (world s) (my_post_resume_arg (thread_datas (world s) td))))))]
           \<and> \<not> head_writes_locked [] tr
      else head_writes tr = [])"
proof -
  let ?arg = "my_post_resume_arg (thread_datas (world s) td)"
  let ?s0 = "log (Action_executed register_waiter ?arg) s"
  let ?d = "register_waiter_datas (world s) ?arg"
  from assms(2) obtain s1 where
    s': "s' = update_thread_data td
            (\<lambda>t. t\<lparr>my_post_resume_action := none, my_post_resume_arg := nullptr\<rparr>) s1"
    and rw: "register_waiter_action c k ?arg ?s0 = Inr s1"
    using assms(1) by (elim do_post_resume_action_parts) auto
  have w0: "world ?s0 = world s" and t0: "trace ?s0 = trace s @ [Action_executed register_waiter ?arg]"
    by (simp_all add: log_def)
  show ?thesis
  proof (cases "m_version_and_traits (wait_contexts (world s) (wo ?d)) = 0")
    case True
    then have l: "m_version_and_traits (wait_contexts (world ?s0)
        (wo (register_waiter_datas (world ?s0) ?arg))) = 0" by (simp add: w0)
    from register_waiter_action_legacy[OF rw l]
    show ?thesis using True s' t0 by (auto simp: w0)
  next
    case False
    then have l: "m_version_and_traits (wait_contexts (world ?s0)
        (wo (register_waiter_datas (world ?s0) ?arg))) \<noteq> 0" by (simp add: w0)
    from register_waiter_action_current[OF rw l]
    show ?thesis using False s' t0 by (auto simp: Let_def w0)
  qed
qed

lemma sample_unregister_waiter:
  "unregister_waiter sample_config sample_collaborators 1 5 sample_state =
     Some (Inr unregistered_state)"
proof -
  have q: "interference sample_state = []" by (simp add: sample_state_def)
  have f: "ref_count 1 sample_state AND lock_flag sample_config = 0"
    by (simp add: sample_state_def sample_world_def ref_count_def sample_config_def)
  show ?thesis
    unfolding unregister_waiter_def lock_quiet[OF q f]
    by (simp add: sample_state_def sample_world_def sample_config_def sample_collaborators_def
        unregistered_state_def wait_head_def set_wait_head_def log_def set_ref_count_def
        ref_count_def unlock_def is_locked_def atomic_load_def other_threads_def fetch_and_def
        Let_def)
qed

text \<open>
  Claim C3, as the claim states it: on the legacy path too the caller holds the lock when
  it writes \<^verbatim>\<open>m_wait_head\<close>. The \<^verbatim>\<open>register_waiter\<close> action on the legacy sample
  wait context, whose lock flag is clear and which no other thread touches, writes
  \<^verbatim>\<open>m_wait_head\<close> without ever acquiring the lock.
\<close>

theorem legacy_registration_writes_head_unlocked_counterexample:
  "m_version_and_traits (wait_contexts (world legacy_state) 1) = 0 \<and>
   ref_count 1 legacy_state AND lock_flag sample_config = 0 \<and>
   do_post_resume_action sample_config sample_collaborators 30
     (set_post_resume_action 30 register_waiter 7 legacy_state) = Inr legacy_resumed_state \<and>
   trace legacy_resumed_state =
     [Action_executed register_waiter 7, Wait_head_written 1 2, Resume_called 2,
      Task_pushed False 3 2, New_work_advertised 3] \<and>
   \<not> head_writes_locked [] (trace legacy_resumed_state)"
  using sample_register_legacy
  by (simp add: legacy_resumed_state_def legacy_state_def sample_state_def sample_world_def
      ref_count_def)

text \<open>
  Claim C3, amended. \<^verbatim>\<open>unregister_waiter\<close> and \<^verbatim>\<open>notify_waiters\<close> write
  \<^verbatim>\<open>m_wait_head\<close> only between their acquisition and their release of the lock. The
  \<^verbatim>\<open>register_waiter\<close> action on the current path writes \<^verbatim>\<open>m_wait_head\<close> nowhere in
  this file (the registration is \<^verbatim>\<open>try_register_waiter\<close>'s); on the legacy path
  (\<^verbatim>\<open>m_version_and_traits == 0\<close>) it writes \<^verbatim>\<open>m_wait_head\<close> once and does not hold the
  lock then.
\<close>

theorem wait_head_writes_and_the_lock:
  "(unregister_waiter c k this n s = Some (Inr s') \<longrightarrow>
      (\<exists>tr. trace s' = trace s @ tr \<and> head_writes_locked [] tr)) \<and>
   (notify_waiters c this s = Some (Inr s') \<longrightarrow>
      (\<exists>tr. trace s' = trace s @ tr \<and> head_writes_locked [] tr)) \<and>
   (my_post_resume_action (thread_datas (world s) td) = register_waiter \<and>
    do_post_resume_action c k td s = Inr s' \<longrightarrow>
      (\<exists>tr. trace s' = trace s @ tr \<and>
         (if m_version_and_traits (wait_contexts (world s)
               (wo (register_waiter_datas (world s)
                  (my_post_resume_arg (thread_datas (world s) td))))) = 0
          then head_writes tr =
                 [(wo (register_waiter_datas (world s)
                        (my_post_resume_arg (thread_datas (world s) td))),
                   my_suspend_point (wait_nodes (world s)
                     (node (register_waiter_datas (world s)
                        (my_post_resume_arg (thread_datas (world s) td))))))]
               \<and> \<not> head_writes_locked [] tr
          else head_writes tr = [])))"
  using unregister_waiter_locked[of c k this n s s'] notify_waiters_locked[of c this s s']
    register_waiter_head_writes[of s td c k s']
  by blast

text \<open>The four cases on the sample states.\<close>

theorem wait_head_writes_and_the_lock_witness:
  "unregister_waiter sample_config sample_collaborators 1 5 sample_state =
     Some (Inr unregistered_state) \<and>
   head_writes (trace unregistered_state) = [(1, 6)] \<and>
   head_writes_locked [] (trace unregistered_state) \<and>
   notify_waiters sample_config 1 sample_state = Some (Inr notified_state) \<and>
   head_writes (trace notified_state) = [(1, nullptr)] \<and>
   head_writes_locked [] (trace notified_state) \<and>
   do_post_resume_action sample_config sample_collaborators 30
     (set_post_resume_action 30 register_waiter 7 sample_state) = Inr current_resumed_state \<and>
   head_writes (trace current_resumed_state) = [] \<and>
   do_post_resume_action sample_config sample_collaborators 30
     (set_post_resume_action 30 register_waiter 7 legacy_state) = Inr legacy_resumed_state \<and>
   head_writes (trace legacy_resumed_state) = [(1, 2)] \<and>
   \<not> head_writes_locked [] (trace legacy_resumed_state)"
proof -
  have a: "my_post_resume_action (thread_datas (world
      (set_post_resume_action 30 register_waiter 7 legacy_state)) 30) = register_waiter"
    and b: "my_post_resume_action (thread_datas (world
      (set_post_resume_action 30 register_waiter 7 sample_state)) 30) = register_waiter"
    by (simp_all add: set_post_resume_action_def update_thread_data_def)
  note t = wait_head_writes_and_the_lock
  from t[of sample_config sample_collaborators 1 5 sample_state unregistered_state,
          THEN conjunct1, THEN mp, OF sample_unregister_waiter]
       t[of sample_config sample_collaborators 1 5 sample_state notified_state,
          THEN conjunct2, THEN conjunct1, THEN mp, OF sample_notify_waiters]
       t[of sample_config sample_collaborators 1 5
            "set_post_resume_action 30 register_waiter 7 sample_state" current_resumed_state 30,
          THEN conjunct2, THEN conjunct2, THEN mp, OF conjI[OF b sample_register_current]]
       t[of sample_config sample_collaborators 1 5
            "set_post_resume_action 30 register_waiter 7 legacy_state" legacy_resumed_state 30,
          THEN conjunct2, THEN conjunct2, THEN mp, OF conjI[OF a sample_register_legacy]]
       sample_unregister_waiter sample_notify_waiters sample_register_current
       sample_register_legacy
  show ?thesis
    by (simp add: unregistered_state_def notified_state_def current_resumed_state_def
        legacy_resumed_state_def sample_state_def)
qed

section \<open>\<^verbatim>\<open>publish_wait_list\<close> and concurrent changes of the count\<close>

lemma flag_bits_lock: "flag_bits c v = flag_bits c r \<Longrightarrow> v AND lock_flag c = r AND lock_flag c"
  unfolding flag_bits_def
  by (metis (no_types, lifting) and.assoc and.commute bit.conj_disj_distrib or.commute
      and.right_idem word_ao_absorbs(3))

lemma flag_bits_waiter: "flag_bits c v = flag_bits c r \<Longrightarrow> v AND waiter_flag c = r AND waiter_flag c"
  unfolding flag_bits_def
  by (metis (no_types, lifting) and.assoc and.commute bit.conj_disj_distrib or.commute
      and.right_idem word_ao_absorbs(3))

lemma work_count_or_waiter: "work_count c (r OR waiter_flag c) = work_count c r"
  by (auto simp add: work_count_def bit_eq_iff bit_simps)

lemma other_threads_stays_done:
  assumes "work_stays_done c (ref_count this s) (interference s)"
  shows "work_stays_done c (ref_count this (other_threads this s)) (interference (other_threads this s))
     \<and> (work_count c (ref_count this s) = 0 \<longrightarrow> work_count c (ref_count this (other_threads this s)) = 0)
     \<and> flag_bits c (ref_count this (other_threads this s)) = flag_bits c (ref_count this s)"
proof (cases "interference s")
  case Nil
  then show ?thesis using assms by (simp add: other_threads_def)
next
  case (Cons a ws)
  show ?thesis
  proof (cases a)
    case None
    with Cons assms show ?thesis by (simp add: other_threads_def ref_count_def)
  next
    case (Some v)
    with Cons assms show ?thesis by (simp add: other_threads_def)
  qed
qed

text \<open>
  As long as the other threads only change the count and never raise it again once it is
  zero, the loop ends with the waiter flag in \<open>expected\<close> exactly when it is in the
  counter, and exactly when work is outstanding at that moment.
\<close>

lemma publish_loop_when_work_stays_done:
  assumes "flags_ok c"
    and "work_stays_done c (ref_count this s) (interference s)"
    and "ref_count this s AND waiter_flag c = 0"
    and "e AND waiter_flag c = 0"
    and "work_count c e = 0 \<longrightarrow> work_count c (ref_count this s) = 0"
  shows "\<exists>e' s'. publish_loop c this e s = Inr (e', s') \<and>
           (e' AND waiter_flag c \<noteq> 0 \<longleftrightarrow> ref_count this s' AND waiter_flag c \<noteq> 0) \<and>
           (e' AND waiter_flag c \<noteq> 0 \<longleftrightarrow> work_count c (ref_count this s') \<noteq> 0)"
  using assms
proof (induction c this e s rule: publish_loop.induct)
  case (1 c this expected s)
  let ?s1 = "other_threads this s"
  let ?s2 = "other_threads this ?s1"
  note o1 = other_threads_stays_done[OF "1.prems"(2)]
  note o2 = other_threads_stays_done[OF conjunct1[OF o1]]
  have w1: "ref_count this ?s1 AND waiter_flag c = 0"
    using o1 "1.prems"(3) flag_bits_waiter by metis
  have w2: "ref_count this ?s2 AND waiter_flag c = 0"
    using o2 w1 flag_bits_waiter by metis
  have ce: "continue_execution c this s = (work_count c (ref_count this ?s1) \<noteq> 0, ?s1)"
    by (simp add: continue_execution_def atomic_load_def Let_def)
  show ?case
  proof (cases "work_count c (ref_count this ?s1) = 0")
    case True
    with "1.prems"(4) ce w1 show ?thesis
      by (simp add: publish_loop.simps[of c this expected s])
  next
    case pos: False
    with "1.prems"(5) o1 have epos: "work_count c expected \<noteq> 0" by blast
    show ?thesis
    proof (cases "ref_count this ?s2 = expected")
      case True
      then have cas: "compare_exchange_strong this expected (expected OR waiter_flag c) ?s1 =
          (True, expected, set_ref_count this (expected OR waiter_flag c) ?s2)"
        by (simp add: compare_exchange_strong_def Let_def)
      have "(expected OR waiter_flag c) AND waiter_flag c \<noteq> 0"
        using "1.prems"(1) by (simp add: flags_ok_def)
      with cas ce pos "1.prems"(4) epos show ?thesis
        by (simp add: publish_loop.simps[of c this expected s] work_count_or_waiter)
    next
      case False
      then have cas: "compare_exchange_strong this expected (expected OR waiter_flag c) ?s1 =
          (False, ref_count this ?s2, ?s2)"
        by (simp add: compare_exchange_strong_def Let_def)
      have "\<exists>e' s'. publish_loop c this (ref_count this ?s2) ?s2 = Inr (e', s') \<and>
           (e' AND waiter_flag c \<noteq> 0 \<longleftrightarrow> ref_count this s' AND waiter_flag c \<noteq> 0) \<and>
           (e' AND waiter_flag c \<noteq> 0 \<longleftrightarrow> work_count c (ref_count this s') \<noteq> 0)"
      proof (rule "1.IH"[OF _ ce[symmetric] _ cas[symmetric]])
        show "\<not> expected AND waiter_flag c \<noteq> 0" using "1.prems"(4) by simp
        show "\<not> \<not> work_count c (ref_count this ?s1) \<noteq> 0" using pos by simp
        show "\<not> False" by simp
        show "flags_ok c" by (rule "1.prems"(1))
        show "work_stays_done c (ref_count this ?s2) (interference ?s2)" using o2 by simp
        show "ref_count this ?s2 AND waiter_flag c = 0" by (rule w2)
        show "ref_count this ?s2 AND waiter_flag c = 0" by (rule w2)
        show "work_count c (ref_count this ?s2) = 0 \<longrightarrow> work_count c (ref_count this ?s2) = 0"
          by simp
      qed simp_all
      with cas ce pos "1.prems"(4) show ?thesis
        by (simp add: publish_loop.simps[of c this expected s])
    qed
  qed
qed

text \<open>
  So does \<^verbatim>\<open>publish_wait_list\<close>, called with the waiter flag clear and the lock held
  (or on a legacy wait context): it returns without a failed assertion; it returns true
  with the flag set while work is outstanding, and false with the flag clear once the work
  is done.
\<close>

lemma publish_wait_list_when_work_stays_done:
  assumes ok: "flags_ok c"
    and st: "work_stays_done c (ref_count this s) (interference s)"
    and cl: "ref_count this s AND waiter_flag c = 0"
    and pre: "ref_count this s AND lock_flag c \<noteq> 0 \<or>
              m_version_and_traits (wait_contexts (world s) this) = 0"
  shows "\<exists>b s'. publish_wait_list c this s = Inr (b, s') \<and>
           (b \<longleftrightarrow> ref_count this s' AND waiter_flag c \<noteq> 0) \<and>
           (b \<longleftrightarrow> work_count c (ref_count this s') \<noteq> 0)"
proof -
  let ?s1 = "other_threads this s"
  let ?s2 = "other_threads this ?s1"
  note o1 = other_threads_stays_done[OF st]
  note o2 = other_threads_stays_done[OF conjunct1[OF o1]]
  have w1: "ref_count this ?s1 AND waiter_flag c = 0"
    using o1 cl flag_bits_waiter by metis
  have w2: "ref_count this ?s2 AND waiter_flag c = 0"
    using o2 w1 flag_bits_waiter by metis
  have l2: "ref_count this ?s2 AND lock_flag c = ref_count this s AND lock_flag c"
    using o1 o2 flag_bits_lock by metis
  have tr: "m_version_and_traits (wait_contexts (world ?s2) this) =
            m_version_and_traits (wait_contexts (world s) this)"
    using other_threads_frame[of this s] other_threads_frame[of this ?s1]
    by (auto simp: counter_changed_def)
  from publish_loop_when_work_stays_done[OF ok conjunct1[OF o2] w2 w1]
  obtain e' s' where
    pl: "publish_loop c this (ref_count this ?s1) ?s2 = Inr (e', s')"
    and a: "e' AND waiter_flag c \<noteq> 0 \<longleftrightarrow> ref_count this s' AND waiter_flag c \<noteq> 0"
    and b: "e' AND waiter_flag c \<noteq> 0 \<longleftrightarrow> work_count c (ref_count this s') \<noteq> 0"
    using o2 by blast
  have "publish_wait_list c this s = Inr (e' AND waiter_flag c \<noteq> 0, s')"
    using pl pre l2 tr
    by (auto simp: publish_wait_list_def atomic_load_def is_locked_def Let_def)
  with a b show ?thesis by blast
qed

text \<open>
  Claim C1 says that \<^verbatim>\<open>publish_wait_list\<close> never sets the waiter flag once the count
  of outstanding work has reached zero. The lemma \<open>publish_wait_list_when_work_stays_done\<close>
  gives it whenever no other thread raises the count again after it has reached zero.
  Without that the code does set the
  flag on finished work: the count is zero when the call reads \<open>expected\<close>, is one when
  \<^verbatim>\<open>continue_execution\<close> looks, and is zero again when the exchange compares the counter
  with \<open>expected\<close>; the exchange succeeds, and the call returns true with the flag set
  and no work outstanding.
\<close>

theorem publish_wait_list_sets_flag_after_work_is_done:
  "work_count sample_config (ref_count 1 aba_state) = 0 \<and>
   work_count sample_config 0x200000000 = 0 \<and>
   publish_wait_list sample_config 1 aba_state =
     Inr (True, aba_state\<lparr>world := sample_world\<lparr>wait_contexts := (wait_contexts sample_world)
            (1 := \<lparr>m_version_and_traits = 1, m_ref_count = 0x300000000, m_wait_head = 5\<rparr>)\<rparr>,
          interference := []\<rparr>) \<and>
   (0x300000000 :: 64 word) AND waiter_flag sample_config \<noteq> 0 \<and>
   work_count sample_config 0x300000000 = 0"
  by (simp add: publish_wait_list_def aba_state_def sample_state_def sample_world_def
      sample_config_def atomic_load_def is_locked_def other_threads_def publish_loop.simps
      continue_execution_def compare_exchange_strong_def work_count_def set_ref_count_def
      ref_count_def Let_def)

end
